theory Spec2Isabelle
  imports Main "HOL-Library.Sublist" "HOL-Library.Multiset"
begin

section \<open>Strings\<close>

text \<open>
  A JavaScript string is modelled as a \<^typ>\<open>string\<close>; every \<^typ>\<open>char\<close> stands for one
  code unit in the range 0..255 (ASCII and Latin-1). The built-in string methods used by
  the board are written out on that range.
\<close>

definition lower_char :: "char \<Rightarrow> char" where
  "lower_char c =
     (let n = (of_char c :: nat)
      in if (65 \<le> n \<and> n \<le> 90) \<or> (192 \<le> n \<and> n \<le> 222 \<and> n \<noteq> 215)
         then char_of (n + 32) else c)"

text \<open>\<open>String.prototype.toLowerCase\<close>.\<close>

definition toLowerCase :: "string \<Rightarrow> string" where
  "toLowerCase s = map lower_char s"

text \<open>White space and line terminators, as \<open>String.prototype.trim\<close> strips them.\<close>

definition is_space :: "char \<Rightarrow> bool" where
  "is_space c = (let n = (of_char c :: nat) in (9 \<le> n \<and> n \<le> 13) \<or> n = 32 \<or> n = 160)"

definition trim :: "string \<Rightarrow> string" where
  "trim s = rev (dropWhile is_space (rev (dropWhile is_space s)))"

text \<open>\<open>Array.prototype.join\<close> on an array of strings.\<close>

fun join_str :: "string \<Rightarrow> string list \<Rightarrow> string" where
  "join_str sep [] = []"
| "join_str sep [x] = x"
| "join_str sep (x # y # ys) = x @ sep @ join_str sep (y # ys)"

text \<open>\<open>String.prototype.includes\<close>: the needle occurs as a contiguous substring.\<close>

fun includes_str :: "string \<Rightarrow> string \<Rightarrow> bool" where
  "includes_str [] needle = (needle = [])"
| "includes_str (c # cs) needle = (prefix needle (c # cs) \<or> includes_str cs needle)"

section \<open>Slugs\<close>

text \<open>The character class \<open>[a-z0-9]\<close>.\<close>

definition is_alnum :: "char \<Rightarrow> bool" where
  "is_alnum c =
     (let n = (of_char c :: nat) in (97 \<le> n \<and> n \<le> 122) \<or> (48 \<le> n \<and> n \<le> 57))"

text \<open>
  \<open>.replace(/[^a-z0-9]+/g, '-')\<close>: scanning from the left, each match is the longest run of
  characters outside the class, and is replaced by one hyphen.
\<close>

function replace_non_alnum :: "string \<Rightarrow> string" where
  "replace_non_alnum [] = []"
| "replace_non_alnum (c # cs) =
     (if is_alnum c then c # replace_non_alnum cs
      else CHR ''-'' # replace_non_alnum (dropWhile (\<lambda>d. \<not> is_alnum d) cs))"
  by pat_completeness auto
termination
  by (relation "measure length") (auto simp: less_Suc_eq_le length_dropWhile_le)

text \<open>
  \<open>.replace(/(^-|-$)+/g, '')\<close>: \<open>^-\<close> can only match the first character and \<open>-$\<close> only
  the last one, so the global replacement deletes a hyphen in first position and a hyphen
  in last position, and nothing else.
\<close>

definition strip_edge_hyphens :: "string \<Rightarrow> string" where
  "strip_edge_hyphens s =
     (let s1 = (case s of [] \<Rightarrow> [] | c # cs \<Rightarrow> if c = CHR ''-'' then cs else c # cs)
      in if s1 \<noteq> [] \<and> last s1 = CHR ''-'' then butlast s1 else s1)"

text \<open>
  \<open>slugify\<close>. The random identifier of \<open>generateId()\<close> is the parameter \<open>gen\<close>.
\<close>

definition slugify :: "string \<Rightarrow> string \<Rightarrow> string" where
  "slugify gen v =
     (let slug = strip_edge_hyphens (replace_non_alnum (toLowerCase v))
      in if length slug > 0 then slug else ''column-'' @ gen)"

text \<open>
  The slug as the specification words it: non-alphanumeric characters become separators,
  each run of separators is collapsed to a single one, and all leading and trailing
  separators are trimmed.
\<close>

fun collapse_hyphens :: "string \<Rightarrow> string" where
  "collapse_hyphens (a # b # s) =
     (if a = CHR ''-'' \<and> b = CHR ''-'' then collapse_hyphens (b # s)
      else a # collapse_hyphens (b # s))"
| "collapse_hyphens s = s"

definition spec_slug :: "string \<Rightarrow> string" where
  "spec_slug v =
     (let marked = map (\<lambda>c. if is_alnum c then c else CHR ''-'') (toLowerCase v);
          collapsed = collapse_hyphens marked
      in rev (dropWhile (\<lambda>c. c = CHR ''-'') (rev (dropWhile (\<lambda>c. c = CHR ''-'') collapsed))))"

section \<open>Data model\<close>

datatype KanbanPriority = Low | Medium | High

datatype PriorityFilterValue = All | Only KanbanPriority

record Task =
  task_id :: int
  title :: string
  description :: string
  status :: string
  priority :: KanbanPriority
  dueDate :: "string option"
  assignee :: string
  tags :: "string list"
  company :: string
  companyContactName :: string
  companyContactPhone :: string
  jobNumber :: string
  serviceQuote :: string
  createdAt :: string
  updatedAt :: string

record Column =
  col_id :: string
  label :: string
  color :: string

text \<open>The filter criteria, named as the component destructures them.\<close>

record Filters =
  searchFilter :: string
  columnFilter :: string
  priorityFilter :: PriorityFilterValue
  tagFilter :: "string list"
  assigneeFilter :: string
  jobNumberFilter :: string
  serviceQuoteFilter :: string

section \<open>Filter engine\<close>

definition haystack :: "Task \<Rightarrow> string" where
  "haystack task =
     toLowerCase (join_str '' ''
       [title task, description task, assignee task, join_str '' '' (tags task),
        company task, companyContactName task, companyContactPhone task,
        jobNumber task, serviceQuote task])"

text \<open>The callback of \<open>tasks.filter\<close> in \<open>filteredTasks\<close>, with its early returns in order.\<close>

definition task_visible :: "Filters \<Rightarrow> Task \<Rightarrow> bool" where
  "task_visible f task =
     (if columnFilter f \<noteq> ''all'' \<and> status task \<noteq> columnFilter f then False
      else if priorityFilter f \<noteq> All \<and> Only (priority task) \<noteq> priorityFilter f then False
      else if length (tagFilter f) > 0 \<and> \<not> list_all (\<lambda>tag. tag \<in> set (tags task)) (tagFilter f)
        then False
      else if assigneeFilter f \<noteq> ''all'' \<and> assignee task \<noteq> assigneeFilter f then False
      else if jobNumberFilter f \<noteq> ''all'' \<and> jobNumber task \<noteq> jobNumberFilter f then False
      else if serviceQuoteFilter f \<noteq> ''all'' \<and> serviceQuote task \<noteq> serviceQuoteFilter f
        then False
      else if length (trim (searchFilter f)) > 0
        then (if \<not> includes_str (haystack task) (toLowerCase (trim (searchFilter f)))
              then False else True)
      else True)"

definition filteredTasks :: "Task list \<Rightarrow> Filters \<Rightarrow> Task list" where
  "filteredTasks ts f = filter (task_visible f) ts"

section \<open>Backend records and the board state\<close>

text \<open>
  A card as the backend sends it. The fields that \<open>convertCardToTask\<close> guards with \<open>??\<close>
  may be absent (\<open>None\<close>).
\<close>

record KanbanCard =
  card_id :: int
  card_title :: string
  card_description :: "string option"
  card_status :: string
  card_priority :: KanbanPriority
  due_date :: "string option"
  card_assignee :: "string option"
  card_tags :: "string list option"
  card_company :: "string option"
  company_contact_name :: "string option"
  company_contact_phone :: "string option"
  job_number :: "string option"
  service_quote :: "string option"
  is_active :: bool
  created_at :: string
  updated_at :: string

text \<open>The operator \<open>??\<close>.\<close>

definition nullish :: "'a option \<Rightarrow> 'a \<Rightarrow> 'a" where
  "nullish v d = (case v of None \<Rightarrow> d | Some x \<Rightarrow> x)"

definition convertCardToTask :: "KanbanCard \<Rightarrow> Task" where
  "convertCardToTask kanbanCard =
     \<lparr>task_id = card_id kanbanCard,
      title = card_title kanbanCard,
      description = nullish (card_description kanbanCard) [],
      status = card_status kanbanCard,
      priority = card_priority kanbanCard,
      dueDate = due_date kanbanCard,
      assignee = nullish (card_assignee kanbanCard) [],
      tags = nullish (card_tags kanbanCard) [],
      company = nullish (card_company kanbanCard) [],
      companyContactName = nullish (company_contact_name kanbanCard) [],
      companyContactPhone = nullish (company_contact_phone kanbanCard) [],
      jobNumber = nullish (job_number kanbanCard) [],
      serviceQuote = nullish (service_quote kanbanCard) [],
      createdAt = created_at kanbanCard,
      updatedAt = updated_at kanbanCard\<rparr>"

text \<open>
  A backend call either fails (transport or HTTP error, \<open>Inl\<close>) or returns its payload
  (\<open>Inr\<close>).
\<close>

datatype api_error = ApiError string

type_synonym 'a response = "api_error + 'a"

text \<open>
  What the component sends out: backend requests, cache invalidations and notifications
  (identified by their title), in the order they are issued.
\<close>

datatype effect =
    ApiPatch int string
  | ApiDelete int
  | InvalidateQueries
  | NotifySuccess string
  | NotifyError string

record ColumnDeletionContext =
  ctx_column :: Column
  fallbackColumn :: Column

record ColumnFormValues =
  form_label :: string
  form_color :: string

text \<open>
  The state of the component: one field for each \<open>useState\<close> cell that the operations
  below touch, the label error of \<open>columnForm\<close>, the log of effects, and
  \<open>inFlightDeletes\<close>, the DELETE requests that were sent and have not been answered yet.
\<close>

record Board =
  columns :: "Column list"
  tasks :: "Task list"
  tagOptions :: "string list"
  filters :: Filters
  isReordering :: bool
  pendingColumnOrder :: "Column list"
  columnDeletionContext :: "ColumnDeletionContext option"
  deletingTaskId :: "int option"
  statusUpdating :: "int set"
  columnModalOpen :: bool
  columnFormLabelError :: "string option"
  effects :: "effect list"
  inFlightDeletes :: "int list"

definition DEFAULT_TAG_OPTIONS :: "string list" where
  "DEFAULT_TAG_OPTIONS = [''Service orders'', ''Purchase orders'', ''Sales orders'', ''Miscellaneous'']"

definition defaultColumns :: "Column list" where
  "defaultColumns =
     [\<lparr>col_id = ''backlog'', label = ''Backlog'', color = ''gray''\<rparr>,
      \<lparr>col_id = ''in-progress'', label = ''In Progress'', color = ''indigo''\<rparr>,
      \<lparr>col_id = ''review'', label = ''In Review'', color = ''yellow''\<rparr>,
      \<lparr>col_id = ''done'', label = ''Done'', color = ''green''\<rparr>]"

definition defaultFilters :: Filters where
  "defaultFilters =
     \<lparr>searchFilter = [], columnFilter = ''all'', priorityFilter = All, tagFilter = [],
      assigneeFilter = ''all'', jobNumberFilter = ''all'', serviceQuoteFilter = ''all''\<rparr>"

text \<open>The initial values of the \<open>useState\<close> cells.\<close>

definition initialBoard :: Board where
  "initialBoard =
     \<lparr>columns = defaultColumns, tasks = [], tagOptions = DEFAULT_TAG_OPTIONS,
      filters = defaultFilters, isReordering = False, pendingColumnOrder = defaultColumns,
      columnDeletionContext = None, deletingTaskId = None, statusUpdating = {},
      columnModalOpen = False, columnFormLabelError = None, effects = [],
      inFlightDeletes = []\<rparr>"

definition emit :: "effect \<Rightarrow> Board \<Rightarrow> Board" where
  "emit e b = b\<lparr>effects := effects b @ [e]\<rparr>"

section \<open>Tag options\<close>

text \<open>
  \<open>Array.from(new Set(xs))\<close>: a \<open>Set\<close> keeps insertion order, so each value stays at the
  place of its first occurrence.
\<close>

primrec set_add_all :: "'a list \<Rightarrow> 'a list \<Rightarrow> 'a list" where
  "set_add_all acc [] = acc"
| "set_add_all acc (x # xs) = set_add_all (if x \<in> set acc then acc else acc @ [x]) xs"

definition array_from_set :: "'a list \<Rightarrow> 'a list" where
  "array_from_set xs = set_add_all [] xs"

text \<open>\<open>serverTags\<close>; \<open>Boolean(tag)\<close> is false exactly for the empty string.\<close>

definition serverTags :: "Task list \<Rightarrow> string list" where
  "serverTags ts = array_from_set (filter (\<lambda>tag. tag \<noteq> []) (concat (map tags ts)))"

text \<open>The effect that runs when \<open>tasks\<close> changes, as a function of \<open>tasks\<close> and \<open>tagOptions\<close>.\<close>

definition republishTagOptions :: "Task list \<Rightarrow> string list \<Rightarrow> string list" where
  "republishTagOptions ts current =
     (let found = serverTags ts
      in if length found = 0 then current
         else let combined = array_from_set (DEFAULT_TAG_OPTIONS @ current @ found)
              in if length combined = length current \<and> list_all (\<lambda>v. v \<in> set current) combined
                 then current else combined)"

text \<open>The effect on \<open>tasks\<close>, on the board.\<close>

definition tagOptionsEffect :: "Board \<Rightarrow> Board" where
  "tagOptionsEffect b = b\<lparr>tagOptions := republishTagOptions (tasks b) (tagOptions b)\<rparr>"

text \<open>
  The effect on \<open>cardsQuery.data\<close> replaces the store by the converted cards of a fetch;
  the store has changed, so the effect on \<open>tasks\<close> runs.
\<close>

definition loadCards :: "KanbanCard list \<Rightarrow> Board \<Rightarrow> Board" where
  "loadCards cards b = tagOptionsEffect (b\<lparr>tasks := map convertCardToTask cards\<rparr>)"

text \<open>The \<open>setTagOptions\<close> update of \<open>handleAddTagOption\<close>.\<close>

definition handleAddTagOption :: "string \<Rightarrow> string list \<Rightarrow> string list" where
  "handleAddTagOption newTagName current =
     (let normalized = trim newTagName
      in if normalized = [] then current
         else if normalized \<in> set current then current else current @ [normalized])"

text \<open>The vocabulary starts with the defaults and has no duplicates.\<close>

definition tagOptions_ok :: "string list \<Rightarrow> bool" where
  "tagOptions_ok current \<longleftrightarrow> prefix DEFAULT_TAG_OPTIONS current \<and> distinct current"

section \<open>Changing the status of a task\<close>

definition markStatusUpdating :: "int \<Rightarrow> bool \<Rightarrow> Board \<Rightarrow> Board" where
  "markStatusUpdating taskId updating b =
     b\<lparr>statusUpdating :=
         (if updating then insert taskId (statusUpdating b) else statusUpdating b - {taskId})\<rparr>"

text \<open>
  \<open>handleStatusChange\<close> up to the \<open>await\<close> of \<open>api.patch\<close>. \<open>snapshot\<close> is the value of
  \<open>tasks\<close> that the handler closed over; the state updates are functional and act on the
  current store. When the request is sent, the status of \<open>currentTask\<close> is returned: the
  continuation needs it.
\<close>

definition handleStatusChange_start ::
  "Task list \<Rightarrow> int \<Rightarrow> string \<Rightarrow> Board \<Rightarrow> Board \<times> string option" where
  "handleStatusChange_start snapshot taskId newStatus b =
     (case find (\<lambda>task. task_id task = taskId) snapshot of
        None \<Rightarrow> (b, None)
      | Some currentTask \<Rightarrow>
          if status currentTask = newStatus then (b, None)
          else
            (emit (ApiPatch taskId newStatus)
               ((markStatusUpdating taskId True b)
                  \<lparr>tasks := map (\<lambda>task. if task_id task = taskId
                                         then task\<lparr>status := newStatus\<rparr> else task) (tasks b)\<rparr>),
             Some (status currentTask)))"

text \<open>
  The rest of \<open>handleStatusChange\<close>, once the request is answered: the \<open>try\<close> body on
  success, the \<open>catch\<close> block on failure, then the \<open>finally\<close> block. The call of
  \<open>invalidateQueries\<close> is logged and taken to succeed.
\<close>

definition handleStatusChange_resume ::
  "int \<Rightarrow> string \<Rightarrow> KanbanCard response \<Rightarrow> Board \<Rightarrow> Board" where
  "handleStatusChange_resume taskId previous resp b =
     markStatusUpdating taskId False
       (case resp of
          Inr kanbanCard \<Rightarrow>
            (let updated = convertCardToTask kanbanCard
             in emit InvalidateQueries
                  (b\<lparr>tasks := map (\<lambda>task. if task_id task = task_id updated
                                          then updated else task) (tasks b)\<rparr>))
        | Inl err \<Rightarrow>
            (emit (NotifyError ''Could not update status'') b)
              \<lparr>tasks := map (\<lambda>task. if task_id task = taskId
                                     then task\<lparr>status := previous\<rparr> else task) (tasks b)\<rparr>)"

text \<open>
  One call of \<open>handleStatusChange\<close> that runs to its end with nothing in between: the
  closed-over \<open>tasks\<close> is the current store, and \<open>resp\<close> is the answer to the PATCH.
\<close>

definition handleStatusChange :: "int \<Rightarrow> string \<Rightarrow> KanbanCard response \<Rightarrow> Board \<Rightarrow> Board" where
  "handleStatusChange taskId newStatus resp b =
     (case handleStatusChange_start (tasks b) taskId newStatus b of
        (b', None) \<Rightarrow> b'
      | (b', Some previous) \<Rightarrow> handleStatusChange_resume taskId previous resp b')"

section \<open>Deleting a task\<close>

text \<open>
  \<open>handleDeleteTask\<close> up to the \<open>await\<close> of \<open>api.delete\<close>; the result says whether a
  request was sent.
\<close>

definition handleDeleteTask_start :: "int \<Rightarrow> Board \<Rightarrow> Board \<times> bool" where
  "handleDeleteTask_start taskId b =
     (if deletingTaskId b = Some taskId then (b, False)
      else (emit (ApiDelete taskId)
              (b\<lparr>deletingTaskId := Some taskId,
                 inFlightDeletes := inFlightDeletes b @ [taskId]\<rparr>), True))"

text \<open>
  The rest of \<open>handleDeleteTask\<close>, once the request is answered; the \<open>finally\<close> block
  comes last.
\<close>

definition handleDeleteTask_resume :: "int \<Rightarrow> unit response \<Rightarrow> Board \<Rightarrow> Board" where
  "handleDeleteTask_resume taskId resp b =
     (let b1 = (case resp of
                  Inr u \<Rightarrow>
                    emit InvalidateQueries
                      (emit (NotifySuccess ''Task archived'')
                         (b\<lparr>tasks := filter (\<lambda>task. task_id task \<noteq> taskId) (tasks b)\<rparr>))
                | Inl err \<Rightarrow> emit (NotifyError ''Could not delete task'') b)
      in b1\<lparr>deletingTaskId := None, inFlightDeletes := remove1 taskId (inFlightDeletes b1)\<rparr>)"

definition handleDeleteTask :: "int \<Rightarrow> unit response \<Rightarrow> Board \<Rightarrow> Board" where
  "handleDeleteTask taskId resp b =
     (case handleDeleteTask_start taskId b of
        (b', False) \<Rightarrow> b'
      | (b', True) \<Rightarrow> handleDeleteTask_resume taskId resp b')"

section \<open>Columns\<close>

text \<open>\<open>Array.prototype.findIndex\<close>: the first index whose element passes, or -1.\<close>

fun findIndex :: "('a \<Rightarrow> bool) \<Rightarrow> 'a list \<Rightarrow> int" where
  "findIndex P [] = - 1"
| "findIndex P (x # xs) =
     (if P x then 0 else (let i = findIndex P xs in if i < 0 then - 1 else i + 1))"

text \<open>
  \<open>Promise.all\<close> over the affected tasks: every call of \<open>handleStatusChange\<close> runs up to
  its \<open>await\<close> first, all with the same closed-over \<open>tasks\<close>; the continuations run
  afterwards, here in the order of the requests. \<open>api\<close> gives the answer of the backend to
  a PATCH of a task id with a status.
\<close>

fun start_all :: "Task list \<Rightarrow> string \<Rightarrow> Task list \<Rightarrow> Board \<Rightarrow> Board \<times> (int \<times> string) list" where
  "start_all snapshot newStatus [] b = (b, [])"
| "start_all snapshot newStatus (t # ts) b =
     (case handleStatusChange_start snapshot (task_id t) newStatus b of
        (b', r) \<Rightarrow>
          (case start_all snapshot newStatus ts b' of
             (b'', ps) \<Rightarrow>
               (b'', (case r of None \<Rightarrow> [] | Some previous \<Rightarrow> [(task_id t, previous)]) @ ps)))"

fun resume_all ::
  "(int \<Rightarrow> string \<Rightarrow> KanbanCard response) \<Rightarrow> string \<Rightarrow> (int \<times> string) list \<Rightarrow> Board \<Rightarrow> Board" where
  "resume_all api newStatus [] b = b"
| "resume_all api newStatus ((taskId, previous) # ps) b =
     resume_all api newStatus ps
       (handleStatusChange_resume taskId previous (api taskId newStatus) b)"

definition handleDeleteColumn ::
  "string \<Rightarrow> (int \<Rightarrow> string \<Rightarrow> KanbanCard response) \<Rightarrow> Board \<Rightarrow> Board" where
  "handleDeleteColumn columnId api b =
     (let columnIndex = findIndex (\<lambda>column. col_id column = columnId) (columns b)
      in if columnIndex \<le> 0 then b
         else
           (let fallbackId = col_id (columns b ! nat (columnIndex - 1));
                affectedTasks = filter (\<lambda>task. status task = columnId) (tasks b)
            in case start_all (tasks b) fallbackId affectedTasks b of
                 (b1, ps) \<Rightarrow>
                   (let b2 = resume_all api fallbackId ps b1
                    in b2\<lparr>columns := filter (\<lambda>column. col_id column \<noteq> columnId) (columns b2),
                          filters := (filters b2)
                            \<lparr>columnFilter := (if columnFilter (filters b2) = columnId
                                              then ''all'' else columnFilter (filters b2))\<rparr>,
                          columnDeletionContext := None\<rparr>)))"

definition closeColumnModal :: "Board \<Rightarrow> Board" where
  "closeColumnModal b = b\<lparr>columnModalOpen := False, columnFormLabelError := None\<rparr>"

text \<open>
  \<open>handleColumnSubmit\<close> is the handler wrapped by \<open>columnForm.onSubmit\<close>: the form runs its
  \<open>validate\<close> rules first and stores their errors; the handler body runs only when no rule
  reports an error.
\<close>

definition handleColumnSubmit :: "string \<Rightarrow> ColumnFormValues \<Rightarrow> Board \<Rightarrow> Board" where
  "handleColumnSubmit gen values b =
     (if length (trim (form_label values)) = 0
      then b\<lparr>columnFormLabelError := Some ''Name cannot be empty.''\<rparr>
      else
        (let nextSlug = slugify gen (form_label values)
         in if list_ex (\<lambda>column. col_id column = nextSlug) (columns b)
            then b\<lparr>columnFormLabelError := Some ''Choose a unique name.''\<rparr>
            else closeColumnModal
                   (b\<lparr>columnFormLabelError := None,
                      columns := columns b @
                        [\<lparr>col_id = nextSlug, label = form_label values,
                          color = form_color values\<rparr>]\<rparr>)))"

section \<open>Reordering columns\<close>

text \<open>The effect on \<open>columns\<close> and \<open>isReordering\<close>: outside reorder mode the draft follows
  the committed order.\<close>

definition syncPendingColumnOrder :: "Board \<Rightarrow> Board" where
  "syncPendingColumnOrder b =
     (if \<not> isReordering b then b\<lparr>pendingColumnOrder := columns b\<rparr> else b)"

definition enterReorderMode :: "Board \<Rightarrow> Board" where
  "enterReorderMode b = b\<lparr>pendingColumnOrder := columns b, isReordering := True\<rparr>"

definition cancelReorderMode :: "Board \<Rightarrow> Board" where
  "cancelReorderMode b = b\<lparr>pendingColumnOrder := columns b, isReordering := False\<rparr>"

definition saveColumnOrder :: "Board \<Rightarrow> Board" where
  "saveColumnOrder b = b\<lparr>columns := pendingColumnOrder b, isReordering := False\<rparr>"

text \<open>
  The update function of \<open>moveColumn\<close>. With the target inside the draft and \<open>index\<close>
  outside of it the source swaps with a missing element and stores \<open>undefined\<close> in the
  array, which is no list of columns any more: that case is \<open>None\<close>.
\<close>

definition moveColumn_update :: "int \<Rightarrow> int \<Rightarrow> Column list \<Rightarrow> Column list option" where
  "moveColumn_update index direction current =
     (let targetIndex = index + direction
      in if targetIndex < 0 \<or> targetIndex \<ge> int (length current) then Some current
         else if index < 0 \<or> index \<ge> int (length current) then None
         else Some (current[nat targetIndex := current ! nat index,
                            nat index := current ! nat targetIndex]))"

definition moveColumn :: "int \<Rightarrow> int \<Rightarrow> Board \<Rightarrow> Board option" where
  "moveColumn index direction b =
     (case moveColumn_update index direction (pendingColumnOrder b) of
        None \<Rightarrow> None
      | Some next \<Rightarrow> Some (b\<lparr>pendingColumnOrder := next\<rparr>))"

text \<open>A sequence of \<open>moveColumn\<close> calls, each given as (index, direction).\<close>

fun moveColumns :: "(int \<times> int) list \<Rightarrow> Board \<Rightarrow> Board option" where
  "moveColumns [] b = Some b"
| "moveColumns ((index, direction) # ms) b =
     (case moveColumn index direction b of None \<Rightarrow> None | Some b' \<Rightarrow> moveColumns ms b')"

section \<open>Auxiliary notions and sample data\<close>

text \<open>No two hyphens are adjacent.\<close>

fun no_double_hyphen :: "string \<Rightarrow> bool" where
  "no_double_hyphen (a # b # s) =
     (\<not> (a = CHR ''-'' \<and> b = CHR ''-'') \<and> no_double_hyphen (b # s))"
| "no_double_hyphen s = True"

definition sample_task :: Task where
  "sample_task =
     \<lparr>task_id = 1, title = ''Fix Pump'', description = ''replace seal'',
      status = ''backlog'', priority = High, dueDate = None, assignee = ''Ann'',
      tags = [''Service orders'', ''Urgent''], company = ''Acme'',
      companyContactName = ''Bob'', companyContactPhone = ''555'', jobNumber = ''J-1'',
      serviceQuote = ''Q-9'', createdAt = ''2024-01-01'', updatedAt = ''2024-01-02''\<rparr>"

definition sample_task2 :: Task where
  "sample_task2 =
     sample_task\<lparr>task_id := 2, title := ''Order parts'', status := ''done'',
       tags := [''Service orders''], assignee := ''Cy''\<rparr>"

definition sample_filters :: Filters where
  "sample_filters =
     \<lparr>searchFilter = ''  PUMP rep '', columnFilter = ''backlog'',
      priorityFilter = Only High, tagFilter = [''Service orders'', ''Urgent''],
      assigneeFilter = ''Ann'', jobNumberFilter = ''J-1'', serviceQuoteFilter = ''Q-9''\<rparr>"

definition sample_card :: KanbanCard where
  "sample_card =
     \<lparr>card_id = 7, card_title = ''Fix Pump'', card_description = None,
      card_status = ''doing'', card_priority = Medium, due_date = None,
      card_assignee = Some ''Ann'', card_tags = Some [''Urgent''], card_company = None,
      company_contact_name = None, company_contact_phone = None, job_number = None,
      service_quote = None, is_active = True, created_at = ''2024-01-01'',
      updated_at = ''2024-01-03''\<rparr>"

text \<open>A backend that is unreachable, and one that applies every PATCH.\<close>

definition failing_api :: "int \<Rightarrow> string \<Rightarrow> KanbanCard response" where
  "failing_api taskId newStatus = Inl (ApiError ''Network Error'')"

definition echo_api :: "int \<Rightarrow> string \<Rightarrow> KanbanCard response" where
  "echo_api taskId newStatus =
     Inr (sample_card\<lparr>card_id := taskId, card_status := newStatus\<rparr>)"

definition sample_board :: Board where
  "sample_board = initialBoard\<lparr>tasks := [sample_task, sample_task2]\<rparr>"

definition demo_columns :: "Column list" where
  "demo_columns =
     [\<lparr>col_id = ''backlog'', label = ''Backlog'', color = ''gray''\<rparr>,
      \<lparr>col_id = ''doing'', label = ''Doing'', color = ''blue''\<rparr>,
      \<lparr>col_id = ''done'', label = ''Done'', color = ''green''\<rparr>]"

definition demo_board :: Board where
  "demo_board =
     initialBoard\<lparr>columns := demo_columns, pendingColumnOrder := demo_columns,
       tasks := [sample_task\<lparr>task_id := 7, status := ''doing''\<rparr>, sample_task2],
       filters := defaultFilters\<lparr>columnFilter := ''doing''\<rparr>\<rparr>"

definition untagged_task :: Task where
  "untagged_task = sample_task\<lparr>tags := [[]]\<rparr>"

definition blank_values :: ColumnFormValues where
  "blank_values = \<lparr>form_label = ''  '', form_color = ''gray''\<rparr>"

definition backlog_values :: ColumnFormValues where
  "backlog_values = \<lparr>form_label = ''Backlog'', form_color = ''blue''\<rparr>"

definition on_hold_values :: ColumnFormValues where
  "on_hold_values = \<lparr>form_label = ''On Hold!'', form_color = ''orange''\<rparr>"

text \<open>What the store holds for a task once its PATCH is answered with a card.\<close>

definition answer :: "(int \<Rightarrow> string \<Rightarrow> KanbanCard response) \<Rightarrow> string \<Rightarrow> Task \<Rightarrow> Task" where
  "answer api s t =
     (case api (task_id t) s of Inr kanbanCard \<Rightarrow> convertCardToTask kanbanCard | Inl e \<Rightarrow> t)"

text \<open>
  Every PATCH that moves a task of column \<open>columnId\<close> to \<open>fallbackId\<close> succeeds, and the
  card in the answer has the id of the task and the requested status.
\<close>

definition patch_echoes ::
  "(int \<Rightarrow> string \<Rightarrow> KanbanCard response) \<Rightarrow> string \<Rightarrow> string \<Rightarrow> Task list \<Rightarrow> bool" where
  "patch_echoes api columnId fallbackId ts \<longleftrightarrow>
     (\<forall>t \<in> set ts. status t = columnId \<longrightarrow>
        (case api (task_id t) fallbackId of
           Inr kanbanCard \<Rightarrow> card_id kanbanCard = task_id t \<and> card_status kanbanCard = fallbackId
         | Inl e \<Rightarrow> False))"

section \<open>Properties of the string functions\<close>

lemma includes_str_iff:
  "includes_str hay needle \<longleftrightarrow> (\<exists>pre post. hay = pre @ needle @ post)"
proof (induction hay)
  case Nil
  then show ?case by auto
next
  case (Cons c cs)
  show ?case
  proof
    assume "includes_str (c # cs) needle"
    then consider "prefix needle (c # cs)" | "includes_str cs needle" by auto
    then show "\<exists>pre post. c # cs = pre @ needle @ post"
    proof cases
      case 1
      then obtain post where "c # cs = needle @ post" by (auto simp: prefix_def)
      then have "c # cs = [] @ needle @ post" by simp
      then show ?thesis by blast
    next
      case 2
      with Cons.IH obtain pre post where "cs = pre @ needle @ post" by blast
      then have "c # cs = (c # pre) @ needle @ post" by simp
      then show ?thesis by blast
    qed
  next
    assume "\<exists>pre post. c # cs = pre @ needle @ post"
    then obtain pre post where eq: "c # cs = pre @ needle @ post" by blast
    show "includes_str (c # cs) needle"
    proof (cases pre)
      case Nil
      with eq have "prefix needle (c # cs)" by (simp add: prefix_def)
      then show ?thesis by simp
    next
      case (Cons p ps)
      with eq have "cs = ps @ needle @ post" by simp
      with Cons.IH have "includes_str cs needle" by blast
      then show ?thesis by simp
    qed
  qed
qed

section \<open>Slug generation\<close>

lemma is_alnum_not_hyphen: "is_alnum c \<Longrightarrow> c \<noteq> CHR ''-''"
  by (auto simp: is_alnum_def)

lemma collapse_hyphens_Cons: "\<exists>r. collapse_hyphens (b # s) = b # r"
  by (induction s arbitrary: b) auto

lemma collapse_hyphens_other:
  "a \<noteq> CHR ''-'' \<Longrightarrow> collapse_hyphens (a # s) = a # collapse_hyphens s"
  by (cases s) auto

lemma collapse_hyphens_run:
  "collapse_hyphens (CHR ''-'' # map (\<lambda>c. if is_alnum c then c else CHR ''-'') cs) =
   CHR ''-'' # collapse_hyphens
     (map (\<lambda>c. if is_alnum c then c else CHR ''-'') (dropWhile (\<lambda>d. \<not> is_alnum d) cs))"
proof (induction cs)
  case Nil
  then show ?case by simp
next
  case (Cons d ds)
  then show ?case by (auto simp: is_alnum_not_hyphen)
qed

lemma replace_non_alnum_collapse:
  "replace_non_alnum s = collapse_hyphens (map (\<lambda>c. if is_alnum c then c else CHR ''-'') s)"
proof (induction s rule: replace_non_alnum.induct)
  case 1
  then show ?case by simp
next
  case (2 c cs)
  show ?case
  proof (cases "is_alnum c")
    case True
    with 2 show ?thesis by (simp add: collapse_hyphens_other is_alnum_not_hyphen)
  next
    case False
    with 2 show ?thesis by (simp add: collapse_hyphens_run)
  qed
qed

lemma no_double_hyphen_collapse: "no_double_hyphen (collapse_hyphens s)"
proof (induction s rule: collapse_hyphens.induct)
  case (1 a b s)
  obtain r where r: "collapse_hyphens (b # s) = b # r"
    using collapse_hyphens_Cons by blast
  with 1 show ?case by auto
qed auto

lemma no_double_hyphen_tl: "no_double_hyphen (c # cs) \<Longrightarrow> no_double_hyphen cs"
  by (cases cs) auto

lemma drop_leading_once:
  "no_double_hyphen s \<Longrightarrow>
   dropWhile (\<lambda>c. c = CHR ''-'') s =
     (case s of [] \<Rightarrow> [] | c # cs \<Rightarrow> if c = CHR ''-'' then cs else c # cs)"
  by (cases s rule: no_double_hyphen.cases) auto

lemma no_double_hyphen_snoc:
  "no_double_hyphen (xs @ [CHR ''-'']) \<Longrightarrow> xs \<noteq> [] \<Longrightarrow> last xs \<noteq> CHR ''-''"
  by (induction xs rule: no_double_hyphen.induct) auto

lemma drop_trailing_once:
  assumes nd: "no_double_hyphen s"
  shows "rev (dropWhile (\<lambda>c. c = CHR ''-'') (rev s)) =
         (if s \<noteq> [] \<and> last s = CHR ''-'' then butlast s else s)"
proof (cases s rule: rev_cases)
  case Nil
  then show ?thesis by simp
next
  case (snoc xs x)
  show ?thesis
  proof (cases "x = CHR ''-''")
    case False
    with snoc show ?thesis by simp
  next
    case hyphen: True
    show ?thesis
    proof (cases "xs = []")
      case True
      with snoc hyphen show ?thesis by simp
    next
      case False
      with nd snoc hyphen have "last xs \<noteq> CHR ''-''"
        using no_double_hyphen_snoc by blast
      with False have "dropWhile (\<lambda>c. c = CHR ''-'') (rev xs) = rev xs"
        by (cases xs rule: rev_cases) auto
      with snoc hyphen show ?thesis by simp
    qed
  qed
qed

lemma strip_edge_hyphens_trim:
  assumes "no_double_hyphen s"
  shows "strip_edge_hyphens s =
         rev (dropWhile (\<lambda>c. c = CHR ''-'') (rev (dropWhile (\<lambda>c. c = CHR ''-'') s)))"
proof -
  let ?s1 = "case s of [] \<Rightarrow> [] | c # cs \<Rightarrow> if c = CHR ''-'' then cs else c # cs"
  have nd1: "no_double_hyphen ?s1"
    using assms by (cases s) (auto dest: no_double_hyphen_tl)
  have "dropWhile (\<lambda>c. c = CHR ''-'') s = ?s1"
    using assms by (rule drop_leading_once)
  moreover have "rev (dropWhile (\<lambda>c. c = CHR ''-'') (rev ?s1)) =
      (if ?s1 \<noteq> [] \<and> last ?s1 = CHR ''-'' then butlast ?s1 else ?s1)"
    using nd1 by (rule drop_trailing_once)
  ultimately show ?thesis
    by (simp add: strip_edge_hyphens_def Let_def)
qed

text \<open>
  Claim C7. For every input string, \<open>slugify\<close> returns the input lowercased, with every
  maximal run of characters outside \<open>[a-z0-9]\<close> collapsed to one hyphen and the leading and
  trailing hyphens removed (\<open>spec_slug\<close>); when that is the empty string it returns
  \<open>column-\<close> followed by the generated identifier instead. It never returns the empty
  string.
\<close>

theorem slugify_spec:
  "slugify gen s = (if spec_slug s = [] then ''column-'' @ gen else spec_slug s) \<and>
   slugify gen s \<noteq> []"
proof -
  have "strip_edge_hyphens (replace_non_alnum (toLowerCase s)) = spec_slug s"
    unfolding spec_slug_def Let_def replace_non_alnum_collapse
    by (rule strip_edge_hyphens_trim) (rule no_double_hyphen_collapse)
  then show ?thesis
    by (auto simp: slugify_def Let_def)
qed

lemma spec_slug_in_progress: "spec_slug '' In -- Progress!'' = ''in-progress''"
  by code_simp

theorem slugify_spec_witness:
  "slugify ''k3x9'' '' In -- Progress!'' = ''in-progress'' \<and>
   slugify ''k3x9'' '' In -- Progress!'' \<noteq> []"
  using slugify_spec [of "''k3x9''" "'' In -- Progress!''"]
  by (simp add: spec_slug_in_progress)

section \<open>Filter engine\<close>

lemma task_visible_iff:
  "task_visible f t \<longleftrightarrow>
     (columnFilter f = ''all'' \<or> status t = columnFilter f) \<and>
     (priorityFilter f = All \<or> Only (priority t) = priorityFilter f) \<and>
     (\<forall>tag \<in> set (tagFilter f). tag \<in> set (tags t)) \<and>
     (assigneeFilter f = ''all'' \<or> assignee t = assigneeFilter f) \<and>
     (jobNumberFilter f = ''all'' \<or> jobNumber t = jobNumberFilter f) \<and>
     (serviceQuoteFilter f = ''all'' \<or> serviceQuote t = serviceQuoteFilter f) \<and>
     (trim (searchFilter f) = [] \<or>
      includes_str (haystack t) (toLowerCase (trim (searchFilter f))))"
  unfolding task_visible_def by (auto simp: list_all_iff)

lemma trim_empty: "trim [] = []"
  by (simp add: trim_def)

lemma filteredTasks_relax:
  "(\<And>t. task_visible C t \<Longrightarrow> task_visible C' t) \<Longrightarrow>
   set (filteredTasks T C) \<subseteq> set (filteredTasks T C')"
  by (auto simp: filteredTasks_def)

lemma filteredTasks_sample:
  "filteredTasks [sample_task2, sample_task] sample_filters = [sample_task]"
  by code_simp

text \<open>
  Claim C1. For every task list \<open>T\<close> and criteria \<open>C\<close>, the output of \<open>filteredTasks\<close> is a
  subset of \<open>T\<close>, and every element of it satisfies every predicate of \<open>C\<close> that is not at
  its default: column, priority, assignee, job number and service quote are exact matches
  skipped at \<open>all\<close>; the task has every selected tag; the trimmed, lowercased query, unless
  empty, is a substring of the lowercased, space-joined concatenation of title,
  description, assignee, joined tags, company, contact name, contact phone, job number and
  service quote. Resetting any one predicate to its default gives a superset of the
  output.
\<close>

theorem filteredTasks_sound:
  "set (filteredTasks T C) \<subseteq> set T \<and>
   (\<forall>t \<in> set (filteredTasks T C).
      (columnFilter C \<noteq> ''all'' \<longrightarrow> status t = columnFilter C) \<and>
      (priorityFilter C \<noteq> All \<longrightarrow> Only (priority t) = priorityFilter C) \<and>
      (\<forall>tag \<in> set (tagFilter C). tag \<in> set (tags t)) \<and>
      (assigneeFilter C \<noteq> ''all'' \<longrightarrow> assignee t = assigneeFilter C) \<and>
      (jobNumberFilter C \<noteq> ''all'' \<longrightarrow> jobNumber t = jobNumberFilter C) \<and>
      (serviceQuoteFilter C \<noteq> ''all'' \<longrightarrow> serviceQuote t = serviceQuoteFilter C) \<and>
      (trim (searchFilter C) \<noteq> [] \<longrightarrow>
         (\<exists>pre post. toLowerCase (join_str '' ''
             [title t, description t, assignee t, join_str '' '' (tags t), company t,
              companyContactName t, companyContactPhone t, jobNumber t, serviceQuote t])
            = pre @ toLowerCase (trim (searchFilter C)) @ post))) \<and>
   set (filteredTasks T C) \<subseteq> set (filteredTasks T (C\<lparr>columnFilter := ''all''\<rparr>)) \<and>
   set (filteredTasks T C) \<subseteq> set (filteredTasks T (C\<lparr>priorityFilter := All\<rparr>)) \<and>
   set (filteredTasks T C) \<subseteq> set (filteredTasks T (C\<lparr>tagFilter := []\<rparr>)) \<and>
   set (filteredTasks T C) \<subseteq> set (filteredTasks T (C\<lparr>assigneeFilter := ''all''\<rparr>)) \<and>
   set (filteredTasks T C) \<subseteq> set (filteredTasks T (C\<lparr>jobNumberFilter := ''all''\<rparr>)) \<and>
   set (filteredTasks T C) \<subseteq> set (filteredTasks T (C\<lparr>serviceQuoteFilter := ''all''\<rparr>)) \<and>
   set (filteredTasks T C) \<subseteq> set (filteredTasks T (C\<lparr>searchFilter := []\<rparr>))"
proof -
  have sub: "set (filteredTasks T C) \<subseteq> set T"
    by (simp add: filteredTasks_def)
  have sat: "\<forall>t \<in> set (filteredTasks T C).
      (columnFilter C \<noteq> ''all'' \<longrightarrow> status t = columnFilter C) \<and>
      (priorityFilter C \<noteq> All \<longrightarrow> Only (priority t) = priorityFilter C) \<and>
      (\<forall>tag \<in> set (tagFilter C). tag \<in> set (tags t)) \<and>
      (assigneeFilter C \<noteq> ''all'' \<longrightarrow> assignee t = assigneeFilter C) \<and>
      (jobNumberFilter C \<noteq> ''all'' \<longrightarrow> jobNumber t = jobNumberFilter C) \<and>
      (serviceQuoteFilter C \<noteq> ''all'' \<longrightarrow> serviceQuote t = serviceQuoteFilter C) \<and>
      (trim (searchFilter C) \<noteq> [] \<longrightarrow>
         (\<exists>pre post. toLowerCase (join_str '' ''
             [title t, description t, assignee t, join_str '' '' (tags t), company t,
              companyContactName t, companyContactPhone t, jobNumber t, serviceQuote t])
            = pre @ toLowerCase (trim (searchFilter C)) @ post))"
  proof
    fix t assume "t \<in> set (filteredTasks T C)"
    then have v: "task_visible C t" by (simp add: filteredTasks_def)
    from v show "(columnFilter C \<noteq> ''all'' \<longrightarrow> status t = columnFilter C) \<and>
      (priorityFilter C \<noteq> All \<longrightarrow> Only (priority t) = priorityFilter C) \<and>
      (\<forall>tag \<in> set (tagFilter C). tag \<in> set (tags t)) \<and>
      (assigneeFilter C \<noteq> ''all'' \<longrightarrow> assignee t = assigneeFilter C) \<and>
      (jobNumberFilter C \<noteq> ''all'' \<longrightarrow> jobNumber t = jobNumberFilter C) \<and>
      (serviceQuoteFilter C \<noteq> ''all'' \<longrightarrow> serviceQuote t = serviceQuoteFilter C) \<and>
      (trim (searchFilter C) \<noteq> [] \<longrightarrow>
         (\<exists>pre post. toLowerCase (join_str '' ''
             [title t, description t, assignee t, join_str '' '' (tags t), company t,
              companyContactName t, companyContactPhone t, jobNumber t, serviceQuote t])
            = pre @ toLowerCase (trim (searchFilter C)) @ post))"
      unfolding task_visible_iff includes_str_iff haystack_def by blast
  qed
  have r1: "set (filteredTasks T C) \<subseteq> set (filteredTasks T (C\<lparr>columnFilter := ''all''\<rparr>))"
    by (rule filteredTasks_relax) (simp add: task_visible_iff)
  have r2: "set (filteredTasks T C) \<subseteq> set (filteredTasks T (C\<lparr>priorityFilter := All\<rparr>))"
    by (rule filteredTasks_relax) (simp add: task_visible_iff)
  have r3: "set (filteredTasks T C) \<subseteq> set (filteredTasks T (C\<lparr>tagFilter := []\<rparr>))"
    by (rule filteredTasks_relax) (simp add: task_visible_iff)
  have r4: "set (filteredTasks T C) \<subseteq> set (filteredTasks T (C\<lparr>assigneeFilter := ''all''\<rparr>))"
    by (rule filteredTasks_relax) (simp add: task_visible_iff)
  have r5: "set (filteredTasks T C) \<subseteq> set (filteredTasks T (C\<lparr>jobNumberFilter := ''all''\<rparr>))"
    by (rule filteredTasks_relax) (simp add: task_visible_iff)
  have r6: "set (filteredTasks T C) \<subseteq> set (filteredTasks T (C\<lparr>serviceQuoteFilter := ''all''\<rparr>))"
    by (rule filteredTasks_relax) (simp add: task_visible_iff)
  have r7: "set (filteredTasks T C) \<subseteq> set (filteredTasks T (C\<lparr>searchFilter := []\<rparr>))"
    by (rule filteredTasks_relax) (simp add: task_visible_iff trim_empty)
  from sub sat r1 r2 r3 r4 r5 r6 r7 show ?thesis by blast
qed

lemma sample_filters_active:
  "columnFilter sample_filters \<noteq> ''all'' \<and> priorityFilter sample_filters \<noteq> All \<and>
   tagFilter sample_filters \<noteq> [] \<and> assigneeFilter sample_filters \<noteq> ''all'' \<and>
   jobNumberFilter sample_filters \<noteq> ''all'' \<and> serviceQuoteFilter sample_filters \<noteq> ''all'' \<and>
   trim (searchFilter sample_filters) \<noteq> []"
  by code_simp

theorem filteredTasks_sound_witness:
  "sample_task \<in> set (filteredTasks [sample_task2, sample_task] sample_filters) \<and>
   columnFilter sample_filters \<noteq> ''all'' \<and> priorityFilter sample_filters \<noteq> All \<and>
   tagFilter sample_filters \<noteq> [] \<and> assigneeFilter sample_filters \<noteq> ''all'' \<and>
   jobNumberFilter sample_filters \<noteq> ''all'' \<and> serviceQuoteFilter sample_filters \<noteq> ''all'' \<and>
   trim (searchFilter sample_filters) \<noteq> [] \<and>
   status sample_task = columnFilter sample_filters \<and>
   Only (priority sample_task) = priorityFilter sample_filters \<and>
   set (tagFilter sample_filters) \<subseteq> set (tags sample_task) \<and>
   assignee sample_task = assigneeFilter sample_filters \<and>
   jobNumber sample_task = jobNumberFilter sample_filters \<and>
   serviceQuote sample_task = serviceQuoteFilter sample_filters \<and>
   set (filteredTasks [sample_task2, sample_task] sample_filters)
     \<subseteq> set (filteredTasks [sample_task2, sample_task] (sample_filters\<lparr>tagFilter := []\<rparr>))"
proof -
  have mem: "sample_task \<in> set (filteredTasks [sample_task2, sample_task] sample_filters)"
    by (simp add: filteredTasks_sample)
  show ?thesis
    using mem sample_filters_active
      filteredTasks_sound [of "[sample_task2, sample_task]" sample_filters]
    by blast
qed

text \<open>
  Claim C10. For every task list and criteria, the output of \<open>filteredTasks\<close> is a
  subsequence of the input list: the tasks that pass keep the relative order they have in
  the store.
\<close>

theorem filteredTasks_subseq: "subseq (filteredTasks T C) T"
  by (simp add: filteredTasks_def)

theorem filteredTasks_subseq_witness: "subseq [sample_task] [sample_task2, sample_task]"
  using filteredTasks_subseq [of "[sample_task2, sample_task]" sample_filters]
  by (simp only: filteredTasks_sample)

section \<open>Status change\<close>

lemma find_by_id:
  assumes "distinct (map task_id ts)" and "t \<in> set ts"
  shows "find (\<lambda>task. task_id task = task_id t) ts = Some t"
  using assms
proof (induction ts)
  case Nil
  then show ?case by simp
next
  case (Cons x xs)
  then show ?case by (cases "x = t") force+
qed

lemma same_id_same_task:
  assumes "distinct (map task_id ts)" and "t \<in> set ts" and "x \<in> set ts"
    and "task_id x = task_id t"
  shows "x = t"
  using assms by (meson distinct_map inj_on_def)

lemma handleStatusChange_start_None:
  assumes "find (\<lambda>task. task_id task = taskId) snapshot = Some cur" and "status cur = s"
  shows "handleStatusChange_start snapshot taskId s b = (b, None)"
  using assms by (simp add: handleStatusChange_start_def)

lemma handleStatusChange_start_Some:
  assumes "find (\<lambda>task. task_id task = taskId) snapshot = Some cur" and "status cur \<noteq> s"
  shows "handleStatusChange_start snapshot taskId s b =
     (emit (ApiPatch taskId s)
        ((markStatusUpdating taskId True b)
           \<lparr>tasks := map (\<lambda>task. if task_id task = taskId then task\<lparr>status := s\<rparr> else task)
                        (tasks b)\<rparr>),
      Some (status cur))"
  using assms by (simp add: handleStatusChange_start_def)

lemma revert_optimistic:
  assumes "distinct (map task_id ts)" and "t \<in> set ts"
  shows "map (\<lambda>task. if task_id task = task_id t then task\<lparr>status := status t\<rparr> else task)
           (map (\<lambda>task. if task_id task = task_id t then task\<lparr>status := s\<rparr> else task) ts) = ts"
proof -
  have "\<And>x. x \<in> set ts \<Longrightarrow>
      (if task_id (if task_id x = task_id t then x\<lparr>status := s\<rparr> else x) = task_id t
       then (if task_id x = task_id t then x\<lparr>status := s\<rparr> else x)\<lparr>status := status t\<rparr>
       else (if task_id x = task_id t then x\<lparr>status := s\<rparr> else x)) = x"
  proof -
    fix x assume "x \<in> set ts"
    show "(if task_id (if task_id x = task_id t then x\<lparr>status := s\<rparr> else x) = task_id t
       then (if task_id x = task_id t then x\<lparr>status := s\<rparr> else x)\<lparr>status := status t\<rparr>
       else (if task_id x = task_id t then x\<lparr>status := s\<rparr> else x)) = x"
    proof (cases "task_id x = task_id t")
      case True
      with \<open>x \<in> set ts\<close> have "x = t" using same_id_same_task [OF assms] by blast
      then show ?thesis by simp
    next
      case False
      then show ?thesis by simp
    qed
  qed
  then show ?thesis
    by (simp add: map_idI comp_def)
qed

lemma sample_board_store:
  "sample_task \<in> set (tasks sample_board) \<and> distinct (map task_id (tasks sample_board)) \<and>
   ''done'' \<noteq> status sample_task \<and> statusUpdating sample_board = {}"
  by code_simp

text \<open>
  Claim C8. For every task \<open>t\<close> in the store (task ids being unique in the store), calling
  \<open>handleStatusChange\<close> with the status \<open>t\<close> already has is a no-op: the call returns before
  a request is sent, and the whole state, with the store, the busy flags and the log of
  requests, is as before.
\<close>

theorem handleStatusChange_same_status:
  assumes "t \<in> set (tasks b)" and "distinct (map task_id (tasks b))"
  shows "handleStatusChange_start (tasks b) (task_id t) (status t) b = (b, None) \<and>
         handleStatusChange (task_id t) (status t) resp b = b"
proof -
  have "find (\<lambda>task. task_id task = task_id t) (tasks b) = Some t"
    using assms by (simp add: find_by_id)
  then have "handleStatusChange_start (tasks b) (task_id t) (status t) b = (b, None)"
    by (rule handleStatusChange_start_None) simp
  then show ?thesis by (simp add: handleStatusChange_def)
qed

theorem handleStatusChange_same_status_witness:
  "sample_task \<in> set (tasks sample_board) \<and> distinct (map task_id (tasks sample_board)) \<and>
   handleStatusChange (task_id sample_task) (status sample_task) (Inr sample_card) sample_board
     = sample_board"
  using sample_board_store
    handleStatusChange_same_status [of sample_task sample_board "Inr sample_card"]
  by blast

text \<open>
  Claim C2. For every task \<open>t\<close> in the store (task ids being unique in the store) and
  every target status \<open>s\<close> other than the status of \<open>t\<close>: the call marks the task busy and
  sends the PATCH; if the PATCH fails, the store is again what it was before the
  optimistic update, so \<open>t\<close> has its former status, and the error is notified; and
  whatever the answer, success or failure, the task is not in \<open>statusUpdating\<close> when the
  operation has completed.
\<close>

theorem handleStatusChange_rollback:
  assumes "t \<in> set (tasks b)" and "distinct (map task_id (tasks b))" and "s \<noteq> status t"
  shows "tasks (handleStatusChange (task_id t) s (Inl err) b) = tasks b \<and>
         effects (handleStatusChange (task_id t) s (Inl err) b) =
           effects b @ [ApiPatch (task_id t) s, NotifyError ''Could not update status''] \<and>
         task_id t \<in> statusUpdating (fst (handleStatusChange_start (tasks b) (task_id t) s b)) \<and>
         t\<lparr>status := s\<rparr> \<in> set (tasks (fst (handleStatusChange_start (tasks b) (task_id t) s b))) \<and>
         statusUpdating (handleStatusChange (task_id t) s resp b) = statusUpdating b - {task_id t} \<and>
         task_id t \<notin> statusUpdating (handleStatusChange (task_id t) s resp b)"
proof -
  have f: "find (\<lambda>task. task_id task = task_id t) (tasks b) = Some t"
    using assms by (simp add: find_by_id)
  have ne: "status t \<noteq> s" using assms(3) by simp
  note st = handleStatusChange_start_Some [OF f ne]
  have rv: "map (\<lambda>task. if task_id task = task_id t then task\<lparr>status := status t\<rparr> else task)
           (map (\<lambda>task. if task_id task = task_id t then task\<lparr>status := s\<rparr> else task)
              (tasks b)) = tasks b"
    using assms(2,1) by (rule revert_optimistic)
  have 1: "tasks (handleStatusChange (task_id t) s (Inl err) b) = tasks b"
    using rv by (simp add: handleStatusChange_def st handleStatusChange_resume_def
        markStatusUpdating_def emit_def)
  have 2: "effects (handleStatusChange (task_id t) s (Inl err) b) =
           effects b @ [ApiPatch (task_id t) s, NotifyError ''Could not update status'']"
    by (simp add: handleStatusChange_def st handleStatusChange_resume_def
        markStatusUpdating_def emit_def)
  have 3: "task_id t \<in> statusUpdating (fst (handleStatusChange_start (tasks b) (task_id t) s b))"
    by (simp add: st markStatusUpdating_def emit_def)
  have "(\<lambda>task. if task_id task = task_id t then task\<lparr>status := s\<rparr> else task) t
          \<in> set (map (\<lambda>task. if task_id task = task_id t then task\<lparr>status := s\<rparr> else task)
                   (tasks b))"
    using assms(1) by (intro imageI [of t "set (tasks b)", folded set_map])
  then have 4: "t\<lparr>status := s\<rparr>
      \<in> set (tasks (fst (handleStatusChange_start (tasks b) (task_id t) s b)))"
    by (simp add: st markStatusUpdating_def emit_def)
  have 5: "statusUpdating (handleStatusChange (task_id t) s resp b) =
      statusUpdating b - {task_id t}"
    by (cases resp) (simp_all add: handleStatusChange_def st handleStatusChange_resume_def
        markStatusUpdating_def emit_def Let_def)
  then have 6: "task_id t \<notin> statusUpdating (handleStatusChange (task_id t) s resp b)"
    by simp
  from 1 2 3 4 5 6 show ?thesis by blast
qed

theorem handleStatusChange_rollback_witness:
  "sample_task \<in> set (tasks sample_board) \<and> distinct (map task_id (tasks sample_board)) \<and>
   ''done'' \<noteq> status sample_task \<and>
   tasks (handleStatusChange (task_id sample_task) ''done'' (Inl (ApiError ''Network Error''))
            sample_board) = tasks sample_board \<and>
   task_id sample_task \<notin>
     statusUpdating (handleStatusChange (task_id sample_task) ''done'' (Inr sample_card)
                       sample_board)"
  using sample_board_store
    handleStatusChange_rollback [of sample_task sample_board "''done''"
      "ApiError ''Network Error''" "Inr sample_card"]
  by blast

section \<open>Column deletion\<close>


lemma findIndex_range: "- 1 \<le> findIndex P xs \<and> findIndex P xs < int (length xs)"
  by (induction xs) (auto simp: Let_def)

lemma findIndex_first:
  "0 \<le> findIndex P xs \<Longrightarrow>
     P (xs ! nat (findIndex P xs)) \<and> (\<forall>j < nat (findIndex P xs). \<not> P (xs ! j))"
proof (induction xs)
  case Nil
  then show ?case by simp
next
  case (Cons x xs)
  show ?case
  proof (cases "P x")
    case True
    then show ?thesis by simp
  next
    case False
    with Cons.prems have nn: "0 \<le> findIndex P xs"
      by (simp add: Let_def split: if_splits)
    with False have eq: "findIndex P (x # xs) = findIndex P xs + 1"
      by (simp add: Let_def)
    from nn have n: "nat (findIndex P xs + 1) = Suc (nat (findIndex P xs))" by simp
    from Cons.IH [OF nn] False show ?thesis
      unfolding eq n by (auto simp: nth_Cons split: nat.splits)
  qed
qed

lemma findIndex_before:
  assumes "0 < findIndex P xs"
  shows "\<not> P (xs ! nat (findIndex P xs - 1))"
proof -
  from assms have "nat (findIndex P xs - 1) < nat (findIndex P xs)" by simp
  moreover from assms have "0 \<le> findIndex P xs" by simp
  ultimately show ?thesis using findIndex_first by blast
qed

lemma start_frame:
  "columns (fst (handleStatusChange_start snap tid s b)) = columns b \<and>
   filters (fst (handleStatusChange_start snap tid s b)) = filters b"
  by (simp add: handleStatusChange_start_def emit_def markStatusUpdating_def
      split: option.splits)

lemma resume_frame:
  "columns (handleStatusChange_resume tid prev resp b) = columns b \<and>
   filters (handleStatusChange_resume tid prev resp b) = filters b"
  by (cases resp) (simp_all add: handleStatusChange_resume_def emit_def markStatusUpdating_def Let_def)

lemma start_all_frame:
  "columns (fst (start_all snap s as b)) = columns b \<and>
   filters (fst (start_all snap s as b)) = filters b"
proof (induction as arbitrary: b)
  case Nil
  then show ?case by simp
next
  case (Cons a as)
  obtain b1 r where 1: "handleStatusChange_start snap (task_id a) s b = (b1, r)"
    by (cases "handleStatusChange_start snap (task_id a) s b")
  obtain b2 ps where 2: "start_all snap s as b1 = (b2, ps)"
    by (cases "start_all snap s as b1")
  from Cons.IH [of b1] 2 have "columns b2 = columns b1 \<and> filters b2 = filters b1" by simp
  moreover from start_frame [of snap "task_id a" s b] 1
  have "columns b1 = columns b \<and> filters b1 = filters b" by simp
  ultimately show ?case using 1 2 by simp
qed

lemma resume_all_frame:
  "columns (resume_all api s ps b) = columns b \<and> filters (resume_all api s ps b) = filters b"
proof (induction ps arbitrary: b)
  case Nil
  then show ?case by simp
next
  case (Cons p ps)
  obtain tid prev where p: "p = (tid, prev)" by (cases p)
  show ?case unfolding p using Cons.IH resume_frame by simp
qed

lemma start_all_tasks:
  assumes "distinct (map task_id snap)" and "set as \<subseteq> set snap"
    and "\<forall>a \<in> set as. status a \<noteq> s"
  shows "tasks (fst (start_all snap s as b)) =
           map (\<lambda>t. if task_id t \<in> task_id ` set as then t\<lparr>status := s\<rparr> else t) (tasks b) \<and>
         snd (start_all snap s as b) = map (\<lambda>a. (task_id a, status a)) as"
  using assms(2,3)
proof (induction as arbitrary: b)
  case Nil
  then show ?case by simp
next
  case (Cons a as)
  from Cons.prems have a: "a \<in> set snap" and ne: "status a \<noteq> s" by auto
  have f: "find (\<lambda>task. task_id task = task_id a) snap = Some a"
    using assms(1) a by (rule find_by_id)
  let ?b1 = "emit (ApiPatch (task_id a) s)
        ((markStatusUpdating (task_id a) True b)
           \<lparr>tasks := map (\<lambda>task. if task_id task = task_id a then task\<lparr>status := s\<rparr> else task)
                        (tasks b)\<rparr>)"
  have st: "handleStatusChange_start snap (task_id a) s b = (?b1, Some (status a))"
    using f ne by (rule handleStatusChange_start_Some)
  have t1: "tasks ?b1 = map (\<lambda>task. if task_id task = task_id a then task\<lparr>status := s\<rparr> else task) (tasks b)"
    by (simp add: emit_def markStatusUpdating_def)
  from Cons.prems have "set as \<subseteq> set snap" "\<forall>a \<in> set as. status a \<noteq> s" by auto
  from Cons.IH [OF this, of ?b1]
  have ih: "tasks (fst (start_all snap s as ?b1)) =
        map (\<lambda>t. if task_id t \<in> task_id ` set as then t\<lparr>status := s\<rparr> else t) (tasks ?b1)"
    and ihp: "snd (start_all snap s as ?b1) = map (\<lambda>a. (task_id a, status a)) as"
    by auto
  obtain b2 ps where 2: "start_all snap s as ?b1 = (b2, ps)"
    by (cases "start_all snap s as ?b1")
  have "tasks b2 = map (\<lambda>t. if task_id t \<in> task_id ` set (a # as) then t\<lparr>status := s\<rparr> else t) (tasks b)"
    using ih 2 unfolding t1 by (auto simp: comp_def)
  moreover have "ps = map (\<lambda>a. (task_id a, status a)) as" using ihp 2 by simp
  ultimately show ?case using st 2 by simp
qed

lemma resume_all_tasks:
  assumes "\<forall>tid \<in> fst ` set ps. \<exists>kc. api tid s = Inr kc \<and> card_id kc = tid"
  shows "tasks (resume_all api s ps b) =
           map (\<lambda>t. if task_id t \<in> fst ` set ps then answer api s t else t) (tasks b)"
  using assms
proof (induction ps arbitrary: b)
  case Nil
  then show ?case by simp
next
  case (Cons p ps)
  obtain tid prev where p: "p = (tid, prev)" by (cases p)
  from Cons.prems p obtain kc where kc: "api tid s = Inr kc" "card_id kc = tid" by auto
  let ?b1 = "handleStatusChange_resume tid prev (api tid s) b"
  have t1: "tasks ?b1 = map (\<lambda>task. if task_id task = tid then convertCardToTask kc else task) (tasks b)"
    using kc by (simp add: handleStatusChange_resume_def emit_def markStatusUpdating_def Let_def
        convertCardToTask_def)
  have cid: "task_id (convertCardToTask kc) = tid"
    using kc by (simp add: convertCardToTask_def)
  have ans: "answer api s (convertCardToTask kc) = convertCardToTask kc"
    using kc cid by (simp add: answer_def)
  from Cons.prems have "\<forall>tid \<in> fst ` set ps. \<exists>kc. api tid s = Inr kc \<and> card_id kc = tid" by auto
  from Cons.IH [OF this, of ?b1]
  have "tasks (resume_all api s ps ?b1) =
      map (\<lambda>t. if task_id t \<in> fst ` set ps then answer api s t else t) (tasks ?b1)" .
  also have "\<dots> = map (\<lambda>t. if task_id t \<in> fst ` set (p # ps) then answer api s t else t) (tasks b)"
    unfolding t1 map_map
  proof (rule map_cong [OF refl])
    fix t
    show "((\<lambda>t. if task_id t \<in> fst ` set ps then answer api s t else t) \<circ>
           (\<lambda>task. if task_id task = tid then convertCardToTask kc else task)) t =
          (if task_id t \<in> fst ` set (p # ps) then answer api s t else t)"
      using kc cid ans p by (auto simp: answer_def)
  qed
  finally show ?case unfolding p by simp
qed


lemma patch_echoes_Inr:
  assumes "patch_echoes api columnId fallbackId ts" and "t \<in> set ts" and "status t = columnId"
  shows "\<exists>kc. api (task_id t) fallbackId = Inr kc \<and> card_id kc = task_id t \<and>
              card_status kc = fallbackId"
proof (cases "api (task_id t) fallbackId")
  case (Inl e)
  with assms show ?thesis unfolding patch_echoes_def by fastforce
next
  case (Inr kc)
  with assms show ?thesis unfolding patch_echoes_def by fastforce
qed

lemma handleDeleteColumn_first: 
  "findIndex (\<lambda>column. col_id column = columnId) (columns b) \<le> 0 \<Longrightarrow>
   handleDeleteColumn columnId api b = b"
  by (simp add: handleDeleteColumn_def)

lemma start_effects:
  "set (effects b) \<subseteq> set (effects (fst (handleStatusChange_start snap tid s b)))"
  by (auto simp: handleStatusChange_start_def emit_def markStatusUpdating_def
      split: option.splits)

lemma resume_effects:
  "set (effects b) \<subseteq> set (effects (handleStatusChange_resume tid prev resp b))"
  by (cases resp) (auto simp: handleStatusChange_resume_def emit_def markStatusUpdating_def Let_def)

lemma start_all_effects_mono:
  "set (effects b) \<subseteq> set (effects (fst (start_all snap s as b)))"
proof (induction as arbitrary: b)
  case Nil
  then show ?case by simp
next
  case (Cons a as)
  obtain b1 r where 1: "handleStatusChange_start snap (task_id a) s b = (b1, r)"
    by (cases "handleStatusChange_start snap (task_id a) s b")
  obtain b2 ps where 2: "start_all snap s as b1 = (b2, ps)"
    by (cases "start_all snap s as b1")
  from start_effects [of b snap "task_id a" s] 1 have "set (effects b) \<subseteq> set (effects b1)"
    by simp
  moreover from Cons.IH [of b1] 2 have "set (effects b1) \<subseteq> set (effects b2)" by simp
  ultimately show ?case using 1 2 by auto
qed

lemma resume_all_effects_mono:
  "set (effects b) \<subseteq> set (effects (resume_all api s ps b))"
proof (induction ps arbitrary: b)
  case Nil
  then show ?case by simp
next
  case (Cons p ps)
  obtain tid prev where p: "p = (tid, prev)" by (cases p)
  show ?case
    unfolding p using Cons.IH [of "handleStatusChange_resume tid prev (api tid s) b"]
      resume_effects [of b tid prev "api tid s"]
    by auto
qed

lemma start_all_requests:
  assumes "distinct (map task_id snap)" and "set as \<subseteq> set snap"
    and "\<forall>a \<in> set as. status a \<noteq> s"
  shows "\<forall>a \<in> set as. ApiPatch (task_id a) s \<in> set (effects (fst (start_all snap s as b)))"
  using assms(2,3)
proof (induction as arbitrary: b)
  case Nil
  then show ?case by simp
next
  case (Cons a as)
  from Cons.prems have a: "a \<in> set snap" and ne: "status a \<noteq> s" by auto
  have f: "find (\<lambda>task. task_id task = task_id a) snap = Some a"
    using assms(1) a by (rule find_by_id)
  let ?b1 = "emit (ApiPatch (task_id a) s)
        ((markStatusUpdating (task_id a) True b)
           \<lparr>tasks := map (\<lambda>task. if task_id task = task_id a then task\<lparr>status := s\<rparr> else task)
                        (tasks b)\<rparr>)"
  have st: "handleStatusChange_start snap (task_id a) s b = (?b1, Some (status a))"
    using f ne by (rule handleStatusChange_start_Some)
  obtain b2 ps where 2: "start_all snap s as ?b1 = (b2, ps)"
    by (cases "start_all snap s as ?b1")
  have "ApiPatch (task_id a) s \<in> set (effects ?b1)" by (simp add: emit_def)
  with start_all_effects_mono [of ?b1 snap s as] 2
  have here: "ApiPatch (task_id a) s \<in> set (effects b2)" by auto
  from Cons.prems have "set as \<subseteq> set snap" "\<forall>a \<in> set as. status a \<noteq> s" by auto
  from Cons.IH [OF this, of ?b1] 2
  have "\<forall>a \<in> set as. ApiPatch (task_id a) s \<in> set (effects b2)" by simp
  with here show ?case using st 2 by simp
qed

lemma handleDeleteColumn_unfold:
  assumes pos: "0 < findIndex (\<lambda>column. col_id column = columnId) (columns b)"
    and fb: "fallbackId =
      col_id (columns b ! nat (findIndex (\<lambda>column. col_id column = columnId) (columns b) - 1))"
    and sa: "start_all (tasks b) fallbackId (filter (\<lambda>task. status task = columnId) (tasks b)) b
             = (b1, ps)"
  shows "handleDeleteColumn columnId api b =
     (resume_all api fallbackId ps b1)
       \<lparr>columns := filter (\<lambda>column. col_id column \<noteq> columnId)
                     (columns (resume_all api fallbackId ps b1)),
        filters := (filters (resume_all api fallbackId ps b1))
          \<lparr>columnFilter :=
             (if columnFilter (filters (resume_all api fallbackId ps b1)) = columnId
              then ''all'' else columnFilter (filters (resume_all api fallbackId ps b1)))\<rparr>,
        columnDeletionContext := None\<rparr>"
  using pos fb sa unfolding handleDeleteColumn_def Let_def by simp

lemma handleDeleteColumn_registry:
  assumes pos: "0 < findIndex (\<lambda>column. col_id column = columnId) (columns b)"
  shows "columns (handleDeleteColumn columnId api b) =
           filter (\<lambda>column. col_id column \<noteq> columnId) (columns b) \<and>
         filters (handleDeleteColumn columnId api b) =
           (filters b)\<lparr>columnFilter :=
              (if columnFilter (filters b) = columnId then ''all''
               else columnFilter (filters b))\<rparr>"
proof -
  let ?fb = "col_id (columns b ! nat (findIndex (\<lambda>column. col_id column = columnId) (columns b) - 1))"
  let ?as = "filter (\<lambda>task. status task = columnId) (tasks b)"
  obtain b1 ps where sa: "start_all (tasks b) ?fb ?as b = (b1, ps)"
    by (cases "start_all (tasks b) ?fb ?as b")
  have fr1: "columns b1 = columns b \<and> filters b1 = filters b"
    using start_all_frame [of "tasks b" ?fb ?as b] sa by simp
  have fr2: "columns (resume_all api ?fb ps b1) = columns b1 \<and>
             filters (resume_all api ?fb ps b1) = filters b1"
    by (rule resume_all_frame)
  show ?thesis
    unfolding handleDeleteColumn_unfold [OF pos refl sa] using fr1 fr2 by simp
qed

lemma handleDeleteColumn_requests:
  assumes pos: "0 < findIndex (\<lambda>column. col_id column = columnId) (columns b)"
    and fb: "fallbackId =
      col_id (columns b ! nat (findIndex (\<lambda>column. col_id column = columnId) (columns b) - 1))"
    and d: "distinct (map task_id (tasks b))"
  shows "\<forall>t \<in> set (tasks b). status t = columnId \<longrightarrow>
           ApiPatch (task_id t) fallbackId \<in> set (effects (handleDeleteColumn columnId api b))"
proof -
  let ?as = "filter (\<lambda>task. status task = columnId) (tasks b)"
  have ne: "fallbackId \<noteq> columnId"
    using findIndex_before [OF pos] fb by simp
  obtain b1 ps where sa: "start_all (tasks b) fallbackId ?as b = (b1, ps)"
    by (cases "start_all (tasks b) fallbackId ?as b")
  have "\<forall>a \<in> set ?as. ApiPatch (task_id a) fallbackId
          \<in> set (effects (fst (start_all (tasks b) fallbackId ?as b)))"
    using d ne by (intro start_all_requests) auto
  with sa have "\<forall>a \<in> set ?as. ApiPatch (task_id a) fallbackId \<in> set (effects b1)" by simp
  with resume_all_effects_mono [of b1 api fallbackId ps]
  have "\<forall>a \<in> set ?as. ApiPatch (task_id a) fallbackId
          \<in> set (effects (resume_all api fallbackId ps b1))" by auto
  then show ?thesis
    unfolding handleDeleteColumn_unfold [OF pos fb sa] by simp
qed

lemma handleDeleteColumn_tasks:
  assumes pos: "0 < findIndex (\<lambda>column. col_id column = columnId) (columns b)"
    and fb: "fallbackId =
      col_id (columns b ! nat (findIndex (\<lambda>column. col_id column = columnId) (columns b) - 1))"
    and d: "distinct (map task_id (tasks b))"
    and echo: "patch_echoes api columnId fallbackId (tasks b)"
  shows "tasks (handleDeleteColumn columnId api b) =
           map (\<lambda>t. if status t = columnId then answer api fallbackId t else t) (tasks b)"
proof -
  let ?as = "filter (\<lambda>task. status task = columnId) (tasks b)"
  have ne: "fallbackId \<noteq> columnId"
    using findIndex_before [OF pos] fb by simp
  obtain b1 ps where sa: "start_all (tasks b) fallbackId ?as b = (b1, ps)"
    by (cases "start_all (tasks b) fallbackId ?as b")
  let ?b2 = "resume_all api fallbackId ps b1"
  have "tasks (fst (start_all (tasks b) fallbackId ?as b)) =
          map (\<lambda>t. if task_id t \<in> task_id ` set ?as then t\<lparr>status := fallbackId\<rparr> else t)
            (tasks b) \<and>
        snd (start_all (tasks b) fallbackId ?as b) = map (\<lambda>a. (task_id a, status a)) ?as"
    using d ne by (intro start_all_tasks) auto
  with sa have t1: "tasks b1 =
        map (\<lambda>t. if task_id t \<in> task_id ` set ?as then t\<lparr>status := fallbackId\<rparr> else t)
          (tasks b)"
    and ps: "ps = map (\<lambda>a. (task_id a, status a)) ?as" by auto
  have ids: "fst ` set ps = task_id ` set ?as" unfolding ps by force
  have ok: "\<forall>tid \<in> fst ` set ps. \<exists>kc. api tid fallbackId = Inr kc \<and> card_id kc = tid"
    unfolding ids using patch_echoes_Inr [OF echo] by auto
  have t2: "tasks ?b2 =
      map (\<lambda>t. if task_id t \<in> task_id ` set ?as then answer api fallbackId t else t) (tasks b1)"
    using resume_all_tasks [of ps api fallbackId b1] ok unfolding ids by blast
  have member: "\<And>t. t \<in> set (tasks b) \<Longrightarrow>
      task_id t \<in> task_id ` set ?as \<longleftrightarrow> status t = columnId"
  proof
    fix t assume t: "t \<in> set (tasks b)" and "task_id t \<in> task_id ` set ?as"
    then obtain a where a: "a \<in> set (tasks b)" "status a = columnId" "task_id t = task_id a"
      by auto
    from same_id_same_task [OF d a(1) t a(3)] a(2) show "status t = columnId" by simp
  next
    fix t assume "t \<in> set (tasks b)" and "status t = columnId"
    then show "task_id t \<in> task_id ` set ?as" by auto
  qed
  have "tasks ?b2 =
      map (\<lambda>t. if status t = columnId then answer api fallbackId t else t) (tasks b)"
    unfolding t2 t1 map_map
  proof (rule map_cong [OF refl])
    fix t assume t: "t \<in> set (tasks b)"
    show "((\<lambda>t. if task_id t \<in> task_id ` set ?as then answer api fallbackId t else t) \<circ>
           (\<lambda>t. if task_id t \<in> task_id ` set ?as then t\<lparr>status := fallbackId\<rparr> else t)) t =
          (if status t = columnId then answer api fallbackId t else t)"
      using member [OF t] patch_echoes_Inr [OF echo t] by (auto simp: answer_def)
  qed
  then show ?thesis
    unfolding handleDeleteColumn_unfold [OF pos fb sa] by simp
qed

lemma handleDeleteColumn_position_0:
  "columns b = c # cs \<Longrightarrow> handleDeleteColumn (col_id c) api b = b"
  by (simp add: handleDeleteColumn_def)

lemma answer_echo:
  assumes "patch_echoes api columnId fallbackId ts" and "t \<in> set ts" and "status t = columnId"
  shows "task_id (answer api fallbackId t) = task_id t \<and> status (answer api fallbackId t) = fallbackId"
  using patch_echoes_Inr [OF assms] by (auto simp: answer_def convertCardToTask_def)

text \<open>
  With columns backlog, doing, done and a task in doing, deleting doing while the backend
  is unreachable: the PATCH fails, the task gets its status doing back, and the column
  is removed all the same.
\<close>

theorem handleDeleteColumn_failed_patch_counterexample:
  "map col_id (columns demo_board) = [''backlog'', ''doing'', ''done''] \<and>
   map status (tasks demo_board) = [''doing'', ''done''] \<and>
   map status (tasks (handleDeleteColumn ''doing'' failing_api demo_board)) = [''doing'', ''done''] \<and>
   map col_id (columns (handleDeleteColumn ''doing'' failing_api demo_board)) = [''backlog'', ''done''] \<and>
   effects (handleDeleteColumn ''doing'' failing_api demo_board) =
     [ApiPatch 7 ''backlog'', NotifyError ''Could not update status'']"
  by code_simp

text \<open>
  Claim C3 (amended). Let \<open>i\<close> be the first registry position that holds the column id.
  Deleting the column at position 0, or an id that names no column, changes nothing. For
  \<open>i > 0\<close>, when task ids are unique in the store and every PATCH sent for a task of that
  column succeeds with a card that has the id of the task and the requested status: a
  PATCH to the id of the column at position \<open>i - 1\<close> is sent for every task whose status
  is the id of the deleted column; each such task is replaced by the answer of the
  backend, with the id of the column at position \<open>i - 1\<close> as status; all other tasks are
  untouched and no task is left in the deleted column; the column is removed from the
  registry; and the column filter is reset to \<open>all\<close> if it pointed at the deleted column
  and is unchanged otherwise.
\<close>

theorem handleDeleteColumn_spec:
  assumes idx: "findIndex (\<lambda>column. col_id column = columnId) (columns b) = i"
    and fb: "fallbackId = col_id (columns b ! nat (i - 1))"
    and b': "b' = handleDeleteColumn columnId api b"
  shows "(i \<le> 0 \<longrightarrow> b' = b) \<and>
         (0 < i \<and> distinct (map task_id (tasks b)) \<and>
          patch_echoes api columnId fallbackId (tasks b) \<longrightarrow>
            (\<forall>t \<in> set (tasks b). status t = columnId \<longrightarrow>
               ApiPatch (task_id t) fallbackId \<in> set (effects b')) \<and>
            tasks b' =
              map (\<lambda>t. if status t = columnId then answer api fallbackId t else t) (tasks b) \<and>
            (\<forall>t \<in> set (tasks b). status t = columnId \<longrightarrow>
               task_id (answer api fallbackId t) = task_id t \<and>
               status (answer api fallbackId t) = fallbackId) \<and>
            (\<forall>t' \<in> set (tasks b'). status t' \<noteq> columnId) \<and>
            columns b' = filter (\<lambda>column. col_id column \<noteq> columnId) (columns b) \<and>
            columnId \<notin> col_id ` set (columns b') \<and>
            filters b' = (filters b)\<lparr>columnFilter :=
              (if columnFilter (filters b) = columnId then ''all''
               else columnFilter (filters b))\<rparr>)"
proof (intro conjI impI)
  assume "i \<le> 0"
  then show "b' = b" unfolding b' using idx by (simp add: handleDeleteColumn_first)
next
  assume h: "0 < i \<and> distinct (map task_id (tasks b)) \<and>
    patch_echoes api columnId fallbackId (tasks b)"
  then have pos: "0 < findIndex (\<lambda>column. col_id column = columnId) (columns b)"
    and d: "distinct (map task_id (tasks b))"
    and echo: "patch_echoes api columnId fallbackId (tasks b)"
    using idx by auto
  have fb': "fallbackId =
      col_id (columns b ! nat (findIndex (\<lambda>column. col_id column = columnId) (columns b) - 1))"
    using fb idx by simp
  have ne: "fallbackId \<noteq> columnId"
    using findIndex_before [OF pos] fb' by simp
  show "\<forall>t \<in> set (tasks b). status t = columnId \<longrightarrow>
          ApiPatch (task_id t) fallbackId \<in> set (effects b')"
    unfolding b' using pos fb' d by (rule handleDeleteColumn_requests)
  show T: "tasks b' =
      map (\<lambda>t. if status t = columnId then answer api fallbackId t else t) (tasks b)"
    unfolding b' using pos fb' d echo by (rule handleDeleteColumn_tasks)
  show A: "\<forall>t \<in> set (tasks b). status t = columnId \<longrightarrow>
             task_id (answer api fallbackId t) = task_id t \<and>
             status (answer api fallbackId t) = fallbackId"
    using answer_echo [OF echo] by blast
  show "\<forall>t' \<in> set (tasks b'). status t' \<noteq> columnId"
    unfolding T using A ne by auto
  from handleDeleteColumn_registry [OF pos, of api]
  show C: "columns b' = filter (\<lambda>column. col_id column \<noteq> columnId) (columns b)"
    and "filters b' = (filters b)\<lparr>columnFilter :=
            (if columnFilter (filters b) = columnId then ''all''
             else columnFilter (filters b))\<rparr>"
    unfolding b' by simp_all
  show "columnId \<notin> col_id ` set (columns b')"
    unfolding C by auto
qed

lemma demo_board_doing_index:
  "findIndex (\<lambda>column. col_id column = ''doing'') (columns demo_board) = 1"
  by code_simp

lemma demo_board_doing_fallback: "''backlog'' = col_id (columns demo_board ! nat (1 - 1))"
  by code_simp

lemma demo_board_doing:
  "(0::int) < 1 \<and> distinct (map task_id (tasks demo_board)) \<and>
   patch_echoes echo_api ''doing'' ''backlog'' (tasks demo_board)"
  by code_simp

lemma demo_board_doing_result:
  "map status (map (\<lambda>t. if status t = ''doing'' then answer echo_api ''backlog'' t else t)
     (tasks demo_board)) = [''backlog'', ''done''] \<and>
   columnFilter (filters demo_board) = ''doing''"
  by code_simp

lemma demo_board_backlog_index:
  "findIndex (\<lambda>column. col_id column = ''backlog'') (columns demo_board) = 0"
  by code_simp

theorem handleDeleteColumn_spec_witness:
  "handleDeleteColumn ''backlog'' echo_api demo_board = demo_board \<and>
   (0::int) < 1 \<and> distinct (map task_id (tasks demo_board)) \<and>
   patch_echoes echo_api ''doing'' ''backlog'' (tasks demo_board) \<and>
   map status (tasks (handleDeleteColumn ''doing'' echo_api demo_board)) = [''backlog'', ''done''] \<and>
   ''doing'' \<notin> col_id ` set (columns (handleDeleteColumn ''doing'' echo_api demo_board)) \<and>
   columnFilter (filters (handleDeleteColumn ''doing'' echo_api demo_board)) = ''all''"
proof -
  have first: "handleDeleteColumn ''backlog'' echo_api demo_board = demo_board"
    using handleDeleteColumn_spec [OF demo_board_backlog_index refl refl, of echo_api]
    by simp
  have later: "tasks (handleDeleteColumn ''doing'' echo_api demo_board) =
        map (\<lambda>t. if status t = ''doing'' then answer echo_api ''backlog'' t else t)
          (tasks demo_board) \<and>
      ''doing'' \<notin> col_id ` set (columns (handleDeleteColumn ''doing'' echo_api demo_board)) \<and>
      filters (handleDeleteColumn ''doing'' echo_api demo_board) =
        (filters demo_board)\<lparr>columnFilter :=
           (if columnFilter (filters demo_board) = ''doing'' then ''all''
            else columnFilter (filters demo_board))\<rparr>"
    using demo_board_doing
      handleDeleteColumn_spec [OF demo_board_doing_index demo_board_doing_fallback refl,
        of echo_api]
    by blast
  show ?thesis
    using first later demo_board_doing demo_board_doing_result by simp
qed

section \<open>Tag options\<close>


lemma set_add_all_append: "set_add_all acc (xs @ ys) = set_add_all (set_add_all acc xs) ys"
  by (induction xs arbitrary: acc) auto

lemma set_set_add_all: "set (set_add_all acc xs) = set acc \<union> set xs"
  by (induction xs arbitrary: acc) auto

lemma distinct_set_add_all: "distinct acc \<Longrightarrow> distinct (set_add_all acc xs)"
  by (induction xs arbitrary: acc) auto

lemma set_add_all_known: "set xs \<subseteq> set acc \<Longrightarrow> set_add_all acc xs = acc"
  by (induction xs arbitrary: acc) auto

lemma set_add_all_distinct: "distinct (acc @ xs) \<Longrightarrow> set_add_all acc xs = acc @ xs"
  by (induction xs arbitrary: acc) auto

lemma set_add_all_extends:
  "distinct acc \<Longrightarrow>
   \<exists>fresh. set_add_all acc xs = acc @ fresh \<and> distinct fresh \<and> set fresh = set xs - set acc"
proof (induction xs arbitrary: acc)
  case Nil
  then show ?case by simp
next
  case (Cons x xs)
  show ?case
  proof (cases "x \<in> set acc")
    case True
    with Cons.IH [OF Cons.prems] show ?thesis by auto
  next
    case False
    with Cons.prems have "distinct (acc @ [x])" by simp
    from Cons.IH [OF this] obtain fresh where
      f: "set_add_all (acc @ [x]) xs = (acc @ [x]) @ fresh" "distinct fresh"
         "set fresh = set xs - set (acc @ [x])" by blast
    have "distinct (acc @ [x] @ fresh)"
      using distinct_set_add_all [OF \<open>distinct (acc @ [x])\<close>, of xs] f(1) by simp
    then have "distinct (x # fresh)" by simp
    moreover have "set (x # fresh) = set (x # xs) - set acc" using f(3) False by auto
    moreover have "set_add_all acc (x # xs) = acc @ (x # fresh)" using False f(1) by simp
    ultimately show ?thesis by blast
  qed
qed

lemma set_serverTags: "set (serverTags ts) = {tag \<in> \<Union> (set ` tags ` set ts). tag \<noteq> []}"
  by (auto simp: serverTags_def array_from_set_def set_set_add_all)

lemma republishTagOptions_eq:
  assumes "tagOptions_ok current"
  shows "republishTagOptions ts current = set_add_all current (serverTags ts)"
proof -
  from assms obtain known where cur: "current = DEFAULT_TAG_OPTIONS @ known" and d: "distinct current"
    by (auto simp: tagOptions_ok_def prefix_def)
  have dd: "distinct DEFAULT_TAG_OPTIONS" using cur d by simp
  have 1: "set_add_all [] DEFAULT_TAG_OPTIONS = DEFAULT_TAG_OPTIONS"
    using set_add_all_distinct [of "[]" DEFAULT_TAG_OPTIONS] dd by simp
  have 2: "set_add_all DEFAULT_TAG_OPTIONS current = current"
    unfolding cur set_add_all_append
    using set_add_all_known [of DEFAULT_TAG_OPTIONS DEFAULT_TAG_OPTIONS]
      set_add_all_distinct [of DEFAULT_TAG_OPTIONS known] d cur by simp
  have comb: "array_from_set (DEFAULT_TAG_OPTIONS @ current @ serverTags ts) =
      set_add_all current (serverTags ts)"
    by (simp add: array_from_set_def set_add_all_append 1 2)
  obtain fresh where fr: "set_add_all current (serverTags ts) = current @ fresh"
    using set_add_all_extends [OF d] by blast
  show ?thesis
  proof (cases "serverTags ts = []")
    case True
    then show ?thesis by (simp add: republishTagOptions_def)
  next
    case False
    then show ?thesis
      unfolding republishTagOptions_def Let_def comb
      by (auto simp: fr)
  qed
qed

lemma tagOptions_ok_initial: "tagOptions_ok (tagOptions initialBoard)"
  by (simp add: tagOptions_ok_def initialBoard_def DEFAULT_TAG_OPTIONS_def)

lemma tagOptions_ok_add: "tagOptions_ok current \<Longrightarrow> tagOptions_ok (handleAddTagOption n current)"
  by (auto simp: tagOptions_ok_def handleAddTagOption_def Let_def prefix_def)

lemma tagOptions_ok_republish:
  assumes "tagOptions_ok current"
  shows "tagOptions_ok (republishTagOptions ts current)"
proof -
  from assms have d: "distinct current" by (simp add: tagOptions_ok_def)
  obtain fresh where "set_add_all current (serverTags ts) = current @ fresh"
    using set_add_all_extends [OF d] by blast
  moreover have "distinct (set_add_all current (serverTags ts))"
    using d by (rule distinct_set_add_all)
  ultimately show ?thesis
    using assms unfolding republishTagOptions_eq [OF assms] tagOptions_ok_def
    by (auto simp: prefix_def)
qed

lemma loadCards_tagOptions_ok:
  "tagOptions_ok (tagOptions b) \<Longrightarrow> tagOptions_ok (tagOptions (loadCards cards b))"
  by (simp add: loadCards_def tagOptionsEffect_def tagOptions_ok_republish)

text \<open>
  A task that carries the empty string as a tag: \<open>filter(Boolean)\<close> drops that tag, so it
  occurs on a task of the store and is not in the vocabulary.
\<close>

theorem tagOptions_empty_tag_counterexample:
  "[] \<in> set (tags untagged_task) \<and>
   untagged_task \<in> set (tasks (tagOptionsEffect (initialBoard\<lparr>tasks := [untagged_task]\<rparr>))) \<and>
   [] \<notin> set (tagOptions (tagOptionsEffect (initialBoard\<lparr>tasks := [untagged_task]\<rparr>)))"
  by code_simp

text \<open>
  Claim C9 (amended). Let the vocabulary begin with the default tags and have no
  duplicates, which holds initially and is kept by both writers of \<open>tagOptions\<close>. After
  the tasks of the store are replaced, the new vocabulary contains the previous
  vocabulary, the default tags and every non-empty tag of the current tasks; it is not
  shorter; it consists of the defaults, then the previously known tags, then the newly
  discovered ones, so every previous entry keeps its position; and it again begins with
  the defaults and has no duplicates.
\<close>

theorem tagOptions_monotone:
  assumes ok: "tagOptions_ok (tagOptions b)"
    and b': "b' = tagOptionsEffect (b\<lparr>tasks := ts\<rparr>)"
  shows "tasks b' = ts \<and>
         set (tagOptions b) \<union> set DEFAULT_TAG_OPTIONS \<union>
           {tag \<in> \<Union> (set ` tags ` set ts). tag \<noteq> []} \<subseteq> set (tagOptions b') \<and>
         length (tagOptions b) \<le> length (tagOptions b') \<and>
         (\<exists>known fresh.
            tagOptions b = DEFAULT_TAG_OPTIONS @ known \<and>
            tagOptions b' = DEFAULT_TAG_OPTIONS @ known @ fresh \<and>
            distinct fresh \<and>
            set fresh = {tag \<in> \<Union> (set ` tags ` set ts). tag \<noteq> []} - set (tagOptions b)) \<and>
         tagOptions_ok (tagOptions b')"
proof -
  let ?cur = "tagOptions b"
  from ok obtain known where cur: "?cur = DEFAULT_TAG_OPTIONS @ known" and d: "distinct ?cur"
    by (auto simp: tagOptions_ok_def prefix_def)
  have new: "tagOptions b' = set_add_all ?cur (serverTags ts)"
    unfolding b' by (simp add: tagOptionsEffect_def republishTagOptions_eq [OF ok])
  obtain fresh where fr: "set_add_all ?cur (serverTags ts) = ?cur @ fresh" "distinct fresh"
    "set fresh = set (serverTags ts) - set ?cur"
    using set_add_all_extends [OF d] by blast
  have 1: "tasks b' = ts" unfolding b' by (simp add: tagOptionsEffect_def)
  have 2: "set ?cur \<union> set DEFAULT_TAG_OPTIONS \<union>
           {tag \<in> \<Union> (set ` tags ` set ts). tag \<noteq> []} \<subseteq> set (tagOptions b')"
    unfolding new set_set_add_all set_serverTags using cur by auto
  have 3: "length ?cur \<le> length (tagOptions b')"
    unfolding new fr(1) by simp
  have 4: "\<exists>known fresh.
            ?cur = DEFAULT_TAG_OPTIONS @ known \<and>
            tagOptions b' = DEFAULT_TAG_OPTIONS @ known @ fresh \<and>
            distinct fresh \<and>
            set fresh = {tag \<in> \<Union> (set ` tags ` set ts). tag \<noteq> []} - set ?cur"
  proof (intro exI conjI)
    show "?cur = DEFAULT_TAG_OPTIONS @ known" by (rule cur)
    show "tagOptions b' = DEFAULT_TAG_OPTIONS @ known @ fresh"
      unfolding new fr(1) using cur by simp
    show "distinct fresh" by (rule fr(2))
    show "set fresh = {tag \<in> \<Union> (set ` tags ` set ts). tag \<noteq> []} - set ?cur"
      using fr(3) unfolding set_serverTags .
  qed
  have 5: "tagOptions_ok (tagOptions b')"
    unfolding b' using tagOptions_ok_republish [OF ok] by (simp add: tagOptionsEffect_def)
  from 1 2 3 4 5 show ?thesis by blast
qed

lemma urgent_on_sample_task:
  "''Urgent'' \<in> {tag \<in> \<Union> (set ` tags ` set [sample_task]). tag \<noteq> []}"
  by (simp add: sample_task_def)

theorem tagOptions_monotone_witness:
  "tagOptions_ok (tagOptions initialBoard) \<and>
   ''Urgent'' \<in> set (tagOptions (tagOptionsEffect (initialBoard\<lparr>tasks := [sample_task]\<rparr>))) \<and>
   set (tagOptions initialBoard) \<subseteq> set (tagOptions (tagOptionsEffect (initialBoard\<lparr>tasks := [sample_task]\<rparr>))) \<and>
   tagOptions_ok (tagOptions (tagOptionsEffect (initialBoard\<lparr>tasks := [sample_task]\<rparr>)))"
  using tagOptions_ok_initial urgent_on_sample_task
    tagOptions_monotone [OF tagOptions_ok_initial refl, of "[sample_task]"]
  by blast

section \<open>Column reordering\<close>


lemma moveColumn_update_length:
  "moveColumn_update i d cur = Some nxt \<Longrightarrow> length nxt = length cur"
  by (auto simp: moveColumn_update_def Let_def split: if_splits)

lemma moveColumn_update_mset:
  "moveColumn_update i d cur = Some nxt \<Longrightarrow> mset nxt = mset cur"
  by (auto simp: moveColumn_update_def Let_def mset_swap split: if_splits)

lemma moveColumn_update_total:
  "0 \<le> i \<Longrightarrow> i < int (length cur) \<Longrightarrow> \<exists>nxt. moveColumn_update i d cur = Some nxt"
  by (auto simp: moveColumn_update_def Let_def)

lemma moveColumn_update_outside:
  "i + d < 0 \<or> i + d \<ge> int (length cur) \<Longrightarrow> moveColumn_update i d cur = Some cur"
  by (auto simp: moveColumn_update_def Let_def)

lemma moveColumn_frame:
  "moveColumn i d b = Some b' \<Longrightarrow>
   b' = b\<lparr>pendingColumnOrder := pendingColumnOrder b'\<rparr> \<and>
   length (pendingColumnOrder b') = length (pendingColumnOrder b) \<and>
   mset (pendingColumnOrder b') = mset (pendingColumnOrder b)"
  by (auto simp: moveColumn_def split: option.splits
      dest: moveColumn_update_length moveColumn_update_mset)

lemma moveColumns_frame:
  "moveColumns ms b = Some b' \<Longrightarrow>
   b' = b\<lparr>pendingColumnOrder := pendingColumnOrder b'\<rparr> \<and>
   length (pendingColumnOrder b') = length (pendingColumnOrder b) \<and>
   mset (pendingColumnOrder b') = mset (pendingColumnOrder b)"
proof (induction ms arbitrary: b)
  case Nil
  then show ?case by simp
next
  case (Cons m ms)
  obtain i d where m: "m = (i, d)" by (cases m)
  from Cons.prems m obtain b1 where 1: "moveColumn i d b = Some b1"
    and 2: "moveColumns ms b1 = Some b'"
    by (auto split: option.splits)
  from moveColumn_frame [OF 1] have f1: "b1 = b\<lparr>pendingColumnOrder := pendingColumnOrder b1\<rparr>"
    and l1: "length (pendingColumnOrder b1) = length (pendingColumnOrder b)"
    and m1: "mset (pendingColumnOrder b1) = mset (pendingColumnOrder b)" by auto
  from Cons.IH [OF 2] have f2: "b' = b1\<lparr>pendingColumnOrder := pendingColumnOrder b'\<rparr>"
    and l2: "length (pendingColumnOrder b') = length (pendingColumnOrder b1)"
    and m2: "mset (pendingColumnOrder b') = mset (pendingColumnOrder b1)" by auto
  have "b' = b\<lparr>pendingColumnOrder := pendingColumnOrder b'\<rparr>"
    by (subst f2, subst f1) simp
  with l1 l2 m1 m2 show ?case by simp
qed

lemma moveColumns_total:
  "\<forall>(i, d) \<in> set ms. 0 \<le> i \<and> i < int (length (pendingColumnOrder b)) \<Longrightarrow>
   \<exists>b'. moveColumns ms b = Some b'"
proof (induction ms arbitrary: b)
  case Nil
  then show ?case by simp
next
  case (Cons m ms)
  obtain i d where m: "m = (i, d)" by (cases m)
  with Cons.prems have "0 \<le> i" "i < int (length (pendingColumnOrder b))" by auto
  from moveColumn_update_total [OF this, of d] obtain nxt
    where n: "moveColumn_update i d (pendingColumnOrder b) = Some nxt" by blast
  let ?b1 = "b\<lparr>pendingColumnOrder := nxt\<rparr>"
  have 1: "moveColumn i d b = Some ?b1" by (simp add: moveColumn_def n)
  have "length (pendingColumnOrder ?b1) = length (pendingColumnOrder b)"
    using moveColumn_update_length [OF n] by simp
  with Cons.prems have "\<forall>(i, d) \<in> set ms. 0 \<le> i \<and> i < int (length (pendingColumnOrder ?b1))"
    by auto
  from Cons.IH [OF this] show ?case unfolding m using 1 by simp
qed

lemma moveColumns_reordering:
  "moveColumns ms b = Some b' \<Longrightarrow> isReordering b \<Longrightarrow> syncPendingColumnOrder b' = b'"
proof -
  assume "moveColumns ms b = Some b'" and r: "isReordering b"
  from moveColumns_frame [OF this(1)]
  have "b' = b\<lparr>pendingColumnOrder := pendingColumnOrder b'\<rparr>" by blast
  then have "isReordering b' = isReordering (b\<lparr>pendingColumnOrder := pendingColumnOrder b'\<rparr>)"
    by simp
  with r show ?thesis by (simp add: syncPendingColumnOrder_def)
qed

text \<open>
  Claim C5. Entering reorder mode copies the committed column order into the draft and
  leaves the committed order alone. Every sequence of \<open>moveColumn\<close> calls that starts
  there changes nothing but the draft, which stays a rearrangement of the committed
  order and is not overwritten by the effect that synchronises the draft; cancelling
  afterwards sets the draft back to the committed order, which is still the one from
  before reorder mode was entered; saving makes the committed order exactly the draft.
  A sequence of moves whose indices are positions of the draft always goes through. A
  move whose target index is outside the draft changes nothing.
\<close>

theorem reorder_draft_isolated:
  "pendingColumnOrder (enterReorderMode b) = columns b \<and>
   columns (enterReorderMode b) = columns b \<and>
   (\<forall>b'. moveColumns ms (enterReorderMode b) = Some b' \<longrightarrow>
      b' = (enterReorderMode b)\<lparr>pendingColumnOrder := pendingColumnOrder b'\<rparr> \<and>
      columns b' = columns b \<and>
      mset (pendingColumnOrder b') = mset (columns b) \<and>
      syncPendingColumnOrder b' = b' \<and>
      columns (cancelReorderMode b') = columns b \<and>
      pendingColumnOrder (cancelReorderMode b') = columns b \<and>
      columns (saveColumnOrder b') = pendingColumnOrder b') \<and>
   ((\<forall>(i, d) \<in> set ms. 0 \<le> i \<and> i < int (length (columns b))) \<longrightarrow>
      (\<exists>b'. moveColumns ms (enterReorderMode b) = Some b')) \<and>
   (\<forall>index direction c.
      index + direction < 0 \<or> index + direction \<ge> int (length (pendingColumnOrder c)) \<longrightarrow>
      moveColumn index direction c = Some c)"
proof (intro conjI allI impI)
  show "pendingColumnOrder (enterReorderMode b) = columns b"
    by (simp add: enterReorderMode_def)
  show "columns (enterReorderMode b) = columns b"
    by (simp add: enterReorderMode_def)
next
  fix b' assume mv: "moveColumns ms (enterReorderMode b) = Some b'"
  from moveColumns_frame [OF mv]
  show fr: "b' = (enterReorderMode b)\<lparr>pendingColumnOrder := pendingColumnOrder b'\<rparr>" by blast
  have "columns b' = columns ((enterReorderMode b)\<lparr>pendingColumnOrder := pendingColumnOrder b'\<rparr>)"
    using fr by simp
  then show c: "columns b' = columns b" by (simp add: enterReorderMode_def)
  from moveColumns_frame [OF mv]
  show "mset (pendingColumnOrder b') = mset (columns b)" by (simp add: enterReorderMode_def)
  show "syncPendingColumnOrder b' = b'"
    using mv by (rule moveColumns_reordering) (simp add: enterReorderMode_def)
  from c show "columns (cancelReorderMode b') = columns b" by (simp add: cancelReorderMode_def)
  from c show "pendingColumnOrder (cancelReorderMode b') = columns b"
    by (simp add: cancelReorderMode_def)
  show "columns (saveColumnOrder b') = pendingColumnOrder b'" by (simp add: saveColumnOrder_def)
next
  assume "\<forall>(i, d) \<in> set ms. 0 \<le> i \<and> i < int (length (columns b))"
  then have "\<forall>(i, d) \<in> set ms. 0 \<le> i \<and> i < int (length (pendingColumnOrder (enterReorderMode b)))"
    by (simp add: enterReorderMode_def)
  then show "\<exists>b'. moveColumns ms (enterReorderMode b) = Some b'"
    by (rule moveColumns_total)
next
  fix index direction :: int and c :: Board
  assume "index + direction < 0 \<or> index + direction \<ge> int (length (pendingColumnOrder c))"
  then have "moveColumn_update index direction (pendingColumnOrder c) = Some (pendingColumnOrder c)"
    by (rule moveColumn_update_outside)
  then show "moveColumn index direction c = Some c" by (simp add: moveColumn_def)
qed

lemma sample_moves:
  "map_option (\<lambda>b'. map col_id (pendingColumnOrder b'))
     (moveColumns [(0, 1), (1, 1), (3, 1), (0, - 1)] (enterReorderMode initialBoard)) =
   Some [''in-progress'', ''review'', ''backlog'', ''done'']"
  by code_simp

lemma sample_moves_in_range:
  "\<forall>(i, d) \<in> set [(0, 1), (1, 1), (3, 1), (0, - 1)].
     0 \<le> i \<and> i < int (length (columns initialBoard))"
  by code_simp

theorem reorder_draft_isolated_witness:
  "map_option (\<lambda>b'. map col_id (pendingColumnOrder b'))
     (moveColumns [(0, 1), (1, 1), (3, 1), (0, - 1)] (enterReorderMode initialBoard)) =
     Some [''in-progress'', ''review'', ''backlog'', ''done''] \<and>
   map_option columns
     (moveColumns [(0, 1), (1, 1), (3, 1), (0, - 1)] (enterReorderMode initialBoard)) =
     Some (columns initialBoard) \<and>
   map_option (\<lambda>b'. columns (cancelReorderMode b'))
     (moveColumns [(0, 1), (1, 1), (3, 1), (0, - 1)] (enterReorderMode initialBoard)) =
     Some (columns initialBoard) \<and>
   map_option (\<lambda>b'. map col_id (columns (saveColumnOrder b')))
     (moveColumns [(0, 1), (1, 1), (3, 1), (0, - 1)] (enterReorderMode initialBoard)) =
     Some [''in-progress'', ''review'', ''backlog'', ''done'']"
proof -
  note spec = reorder_draft_isolated [of initialBoard "[(0, 1), (1, 1), (3, 1), (0, - 1)]"]
  from spec sample_moves_in_range obtain b'
    where mv: "moveColumns [(0, 1), (1, 1), (3, 1), (0, - 1)] (enterReorderMode initialBoard) = Some b'"
    by blast
  with spec have "columns b' = columns initialBoard"
    and "columns (cancelReorderMode b') = columns initialBoard"
    and "columns (saveColumnOrder b') = pendingColumnOrder b'"
    by blast+
  with sample_moves mv show ?thesis by simp
qed

section \<open>Column creation\<close>

lemma list_ex_col_id:
  "list_ex (\<lambda>column. col_id column = slug) cs \<longleftrightarrow> slug \<in> col_id ` set cs"
  unfolding list_ex_iff image_iff by (metis (full_types))

text \<open>
  A label of two spaces: its slug is the fallback \<open>column-k3x9\<close>, which is the id of no
  column, and yet no column is appended, because the form rejects the label as empty.
\<close>

theorem handleColumnSubmit_blank_label_counterexample:
  "slugify ''k3x9'' (form_label blank_values) \<notin> col_id ` set (columns initialBoard) \<and>
   columns (handleColumnSubmit ''k3x9'' blank_values initialBoard) = columns initialBoard \<and>
   columnFormLabelError (handleColumnSubmit ''k3x9'' blank_values initialBoard) =
     Some ''Name cannot be empty.''"
  by code_simp

text \<open>
  Claim C6 (amended). For a label that is not empty after trimming: when the slug of the
  label is the id of an existing column, the submission sets the uniqueness error on
  the label field and changes nothing else, so the registry is unchanged; otherwise it
  appends exactly one column, with that slug as id and the chosen label and color, after
  the existing columns, which are unchanged, and leaves no error on the label field.
\<close>

theorem handleColumnSubmit_spec:
  assumes "trim (form_label values) \<noteq> []"
  shows "(slugify gen (form_label values) \<in> col_id ` set (columns b) \<longrightarrow>
            handleColumnSubmit gen values b =
              b\<lparr>columnFormLabelError := Some ''Choose a unique name.''\<rparr>) \<and>
         (slugify gen (form_label values) \<notin> col_id ` set (columns b) \<longrightarrow>
            columns (handleColumnSubmit gen values b) =
              columns b @ [\<lparr>col_id = slugify gen (form_label values),
                             label = form_label values, color = form_color values\<rparr>] \<and>
            columnFormLabelError (handleColumnSubmit gen values b) = None)"
  using assms
  by (simp add: handleColumnSubmit_def Let_def list_ex_col_id closeColumnModal_def)

lemma backlog_values_collide:
  "trim (form_label backlog_values) \<noteq> [] \<and>
   slugify ''k3x9'' (form_label backlog_values) \<in> col_id ` set (columns initialBoard)"
  by code_simp

lemma on_hold_values_fresh:
  "trim (form_label on_hold_values) \<noteq> [] \<and>
   slugify ''k3x9'' (form_label on_hold_values) \<notin> col_id ` set (columns initialBoard)"
  by code_simp

lemma on_hold_values_slug: "slugify ''k3x9'' (form_label on_hold_values) = ''on-hold''"
  by code_simp

theorem handleColumnSubmit_spec_witness:
  "trim (form_label backlog_values) \<noteq> [] \<and>
   slugify ''k3x9'' (form_label backlog_values) \<in> col_id ` set (columns initialBoard) \<and>
   columns (handleColumnSubmit ''k3x9'' backlog_values initialBoard) = columns initialBoard \<and>
   columnFormLabelError (handleColumnSubmit ''k3x9'' backlog_values initialBoard) =
     Some ''Choose a unique name.'' \<and>
   trim (form_label on_hold_values) \<noteq> [] \<and>
   slugify ''k3x9'' (form_label on_hold_values) \<notin> col_id ` set (columns initialBoard) \<and>
   columns (handleColumnSubmit ''k3x9'' on_hold_values initialBoard) =
     columns initialBoard @ [\<lparr>col_id = ''on-hold'', label = ''On Hold!'', color = ''orange''\<rparr>]"
proof -
  from backlog_values_collide
    handleColumnSubmit_spec [of backlog_values "''k3x9''" initialBoard]
  have a: "handleColumnSubmit ''k3x9'' backlog_values initialBoard =
      initialBoard\<lparr>columnFormLabelError := Some ''Choose a unique name.''\<rparr>" by blast
  from on_hold_values_fresh
    handleColumnSubmit_spec [of on_hold_values "''k3x9''" initialBoard]
  have b: "columns (handleColumnSubmit ''k3x9'' on_hold_values initialBoard) =
      columns initialBoard @
        [\<lparr>col_id = slugify ''k3x9'' (form_label on_hold_values),
          label = form_label on_hold_values, color = form_color on_hold_values\<rparr>]" by blast
  show ?thesis
    using backlog_values_collide on_hold_values_fresh
    unfolding a b on_hold_values_slug by (simp add: on_hold_values_def)
qed

section \<open>Task deletion\<close>

lemma handleDeleteTask_guard:
  "deletingTaskId b = Some taskId \<Longrightarrow> handleDeleteTask taskId resp b = b"
  by (simp add: handleDeleteTask_def handleDeleteTask_start_def)

lemma handleDeleteTask_failure:
  assumes "deletingTaskId b \<noteq> Some taskId"
  shows "tasks (handleDeleteTask taskId (Inl err) b) = tasks b \<and>
         effects (handleDeleteTask taskId (Inl err) b) =
           effects b @ [ApiDelete taskId, NotifyError ''Could not delete task''] \<and>
         deletingTaskId (handleDeleteTask taskId (Inl err) b) = None"
  using assms
  by (simp add: handleDeleteTask_def handleDeleteTask_start_def handleDeleteTask_resume_def
      emit_def Let_def)

lemma handleDeleteTask_success:
  assumes "deletingTaskId b \<noteq> Some taskId"
  shows "tasks (handleDeleteTask taskId (Inr ()) b) =
           filter (\<lambda>task. task_id task \<noteq> taskId) (tasks b) \<and>
         taskId \<notin> task_id ` set (tasks (handleDeleteTask taskId (Inr ()) b)) \<and>
         effects (handleDeleteTask taskId (Inr ()) b) =
           effects b @ [ApiDelete taskId, NotifySuccess ''Task archived'', InvalidateQueries] \<and>
         deletingTaskId (handleDeleteTask taskId (Inr ()) b) = None"
  using assms
  by (auto simp: handleDeleteTask_def handleDeleteTask_start_def handleDeleteTask_resume_def
      emit_def Let_def)

text \<open>
  Claim C4. A second call for the task whose deletion was started last is suppressed,
  but the guard is the single cell \<open>deletingTaskId\<close>: once the deletion of task 2 is
  started while that of task 1 is outstanding, a further call for task 1 passes the guard
  and sends a second DELETE for task 1 while the first one is still unanswered.
\<close>

theorem handleDeleteTask_duplicate_in_flight:
  "inFlightDeletes (fst (handleDeleteTask_start 1 sample_board)) = [1] \<and>
   handleDeleteTask_start 1 (fst (handleDeleteTask_start 1 sample_board)) =
     (fst (handleDeleteTask_start 1 sample_board), False) \<and>
   snd (handleDeleteTask_start 1
          (fst (handleDeleteTask_start 2 (fst (handleDeleteTask_start 1 sample_board))))) = True \<and>
   inFlightDeletes (fst (handleDeleteTask_start 1
          (fst (handleDeleteTask_start 2 (fst (handleDeleteTask_start 1 sample_board)))))) =
     [1, 2, 1] \<and>
   effects (fst (handleDeleteTask_start 1
          (fst (handleDeleteTask_start 2 (fst (handleDeleteTask_start 1 sample_board)))))) =
     [ApiDelete 1, ApiDelete 2, ApiDelete 1]"
  by code_simp

end
